theory Spec2Isabelle
  imports Main "HOL-Library.AList"
begin

section \<open>JavaScript strings\<close>

text \<open>
  A JavaScript string is a \<^typ>\<open>string\<close>; one \<^typ>\<open>char\<close> stands for one code
  unit, among those below 256, so \<^const>\<open>length\<close> is \<^verbatim>\<open>.length\<close> and
  \<^const>\<open>take\<close> is \<^verbatim>\<open>.slice(0, k)\<close>. The white space that
  \<^verbatim>\<open>trim\<close> and \<^verbatim>\<open>trimEnd\<close> remove is JavaScript's white space and
  line terminators among these code units: the space, the tab, the line feed, the
  vertical tab, the form feed, the carriage return and the no-break space (U+00A0).
\<close>

definition js_space :: "char \<Rightarrow> bool" where
  "js_space c =
     (c \<in> set [CHR '' '', CHR 0x09, CHR 0x0A, CHR 0x0B, CHR 0x0C, CHR 0x0D, CHR 0xA0])"

definition trimStart :: "string \<Rightarrow> string" where
  "trimStart s = dropWhile js_space s"

definition trimEnd :: "string \<Rightarrow> string" where
  "trimEnd s = rev (dropWhile js_space (rev s))"

definition trim :: "string \<Rightarrow> string" where
  "trim s = trimEnd (trimStart s)"

definition endsWithSpace :: "string \<Rightarrow> bool" where
  "endsWithSpace s = (case rev s of [] \<Rightarrow> False | c # _ \<Rightarrow> c = CHR '' '')"

text \<open>\<^verbatim>\<open>category.slice(0, Math.max(charIndex, 0))\<close>\<close>

definition sliceTo :: "string \<Rightarrow> int \<Rightarrow> string" where
  "sliceTo s k = take (nat (max k 0)) s"

text \<open>\<^verbatim>\<open>parsed.map((item) => String(item).trim()).filter(Boolean)\<close>\<close>

definition cleanCategories :: "string list \<Rightarrow> string list" where
  "cleanCategories xs = filter (\<lambda>x. x \<noteq> []) (map trim xs)"

section \<open>The header placeholder component (header-search.js)\<close>

text \<open>
  The fields of \<^verbatim>\<open>HeaderSearch\<close> that the placeholder engine uses, the part of
  the page it reads (the data attributes, the reduced-motion preference), the text of
  the placeholder element, and the timers of \<^verbatim>\<open>window.setTimeout\<close> that are
  pending for this component, each with its handle and delay.

  \<^verbatim>\<open>data-placeholder-categories\<close> is held as the browser's \<^verbatim>\<open>JSON.parse\<close>
  leaves it: \<open>Some xs\<close> for an array, with \<open>xs\<close> the items under \<^verbatim>\<open>String\<close>;
  \<open>None\<close> for a text that does not parse or is no array.
  \<^verbatim>\<open>#index\<close> is \<open>None\<close> when it is \<^verbatim>\<open>NaN\<close>, which the remainder by
  the length of an empty list gives.
\<close>

record hs =
  h_prefixData :: string
  h_categoriesData :: "string list option"
  h_reducedMotion :: bool
  h_timeout :: "nat option"
  h_index :: "nat option"
  h_charIndex :: int
  h_isDeleting :: bool
  h_categories :: "string list"
  h_prefix :: string
  h_listening :: bool
  h_textContent :: string
  h_timers :: "(nat \<times> nat) list"
  h_timerCount :: nat

text \<open>The class field initialisers, on a page \<open>pg\<close> that gives the data attributes.\<close>

definition h_construct :: "hs \<Rightarrow> hs" where
  "h_construct pg = pg\<lparr>h_timeout := None, h_index := Some 0, h_charIndex := 0,
     h_isDeleting := False, h_categories := [], h_prefix := [], h_listening := False,
     h_timers := [], h_timerCount := 0\<rparr>"

text \<open>\<^verbatim>\<open>window.setTimeout\<close> gives a fresh positive handle; \<^verbatim>\<open>clearTimeout\<close>
  removes the timer of a handle.\<close>

definition h_setTimeout :: "nat \<Rightarrow> hs \<Rightarrow> nat \<times> hs" where
  "h_setTimeout delay s =
     (let h = Suc (h_timerCount s)
      in (h, s\<lparr>h_timers := h_timers s @ [(h, delay)], h_timerCount := h\<rparr>))"

definition h_clearTimeout :: "nat \<Rightarrow> hs \<Rightarrow> hs" where
  "h_clearTimeout h s = s\<lparr>h_timers := filter (\<lambda>t. fst t \<noteq> h) (h_timers s)\<rparr>"

definition h_getCategories :: "hs \<Rightarrow> string list" where
  "h_getCategories s =
     (case h_categoriesData s of Some xs \<Rightarrow> cleanCategories xs | None \<Rightarrow> [])"

definition h_buildText :: "hs \<Rightarrow> string \<Rightarrow> string" where
  "h_buildText s typedText =
     (if h_prefix s = [] then typedText
      else (let spacer = (if endsWithSpace (h_prefix s) \<or> typedText = [] then [] else '' '')
            in trimEnd (h_prefix s @ spacer @ typedText)))"

text \<open>\<^verbatim>\<open>this.#categories[this.#index] || ''\<close>\<close>

definition h_category :: "hs \<Rightarrow> string" where
  "h_category s =
     (case h_index s of
        None \<Rightarrow> []
      | Some i \<Rightarrow> if i < length (h_categories s) then h_categories s ! i else [])"

text \<open>\<^verbatim>\<open>(this.#index + 1) % this.#categories.length\<close>\<close>

definition h_nextIndex :: "hs \<Rightarrow> nat option" where
  "h_nextIndex s =
     (case h_index s of
        None \<Rightarrow> None
      | Some i \<Rightarrow> if h_categories s = [] then None
                  else Some ((i + 1) mod length (h_categories s)))"

definition h_advance :: "hs \<Rightarrow> hs" where
  "h_advance s =
     (let category = h_category s;
          s1 = (if h_isDeleting s
                then (let c = h_charIndex s - 1
                      in if c \<le> 0
                         then (s\<lparr>h_charIndex := c, h_isDeleting := False,
                                  h_index := h_nextIndex s\<rparr>, 300)
                         else (s\<lparr>h_charIndex := c\<rparr>, 40))
                else (let c = h_charIndex s + 1
                      in if c \<ge> int (length category)
                         then (s\<lparr>h_charIndex := c, h_isDeleting := True\<rparr>, 1200)
                         else (s\<lparr>h_charIndex := c\<rparr>, 85)));
          s2 = (fst s1)\<lparr>h_textContent :=
                  h_buildText (fst s1) (sliceTo category (h_charIndex (fst s1)))\<rparr>;
          t = h_setTimeout (snd s1) s2
      in (snd t)\<lparr>h_timeout := Some (fst t)\<rparr>)"

definition h_resume :: "hs \<Rightarrow> hs" where
  "h_resume s = (if h_timeout s \<noteq> None then s else h_advance s)"

definition h_stop :: "hs \<Rightarrow> hs" where
  "h_stop s =
     (case h_timeout s of
        Some h \<Rightarrow> (h_clearTimeout h s)\<lparr>h_timeout := None\<rparr>
      | None \<Rightarrow> s)"

definition h_pause :: "hs \<Rightarrow> hs" where
  "h_pause s = h_stop s"

text \<open>The part of \<^verbatim>\<open>connectedCallback\<close> that concerns the placeholder; the key
  handlers that open the drawer search do not touch the engine.\<close>

definition h_connectedCallback :: "hs \<Rightarrow> hs" where
  "h_connectedCallback s =
     (let s1 = s\<lparr>h_prefix := trim (h_prefixData s)\<rparr>;
          s2 = s1\<lparr>h_categories := h_getCategories s1\<rparr>
      in if h_categories s2 = [] then s2\<lparr>h_textContent := h_prefix s2\<rparr>
         else if h_reducedMotion s2 \<or> length (h_categories s2) = 1
         then s2\<lparr>h_textContent := h_buildText s2 (hd (h_categories s2))\<rparr>
         else h_resume (s2\<lparr>h_listening := True\<rparr>))"

definition h_disconnectedCallback :: "hs \<Rightarrow> hs" where
  "h_disconnectedCallback s = h_stop s"

text \<open>
  What can happen to the component: it is connected or disconnected, the pointer or the
  focus enters or leaves it (the four listeners exist once \<^verbatim>\<open>connectedCallback\<close>
  has added them), and a pending timer fires, which removes it from the pending timers
  and runs \<^verbatim>\<open>#advance\<close>.
\<close>

datatype h_event = HConnect | HDisconnect | HMouseEnter | HMouseLeave | HFocusIn | HFocusOut
  | HTimer nat

fun h_step :: "h_event \<Rightarrow> hs \<Rightarrow> hs" where
  "h_step HConnect s = h_connectedCallback s"
| "h_step HDisconnect s = h_disconnectedCallback s"
| "h_step HMouseEnter s = (if h_listening s then h_pause s else s)"
| "h_step HMouseLeave s = (if h_listening s then h_resume s else s)"
| "h_step HFocusIn s = (if h_listening s then h_pause s else s)"
| "h_step HFocusOut s = (if h_listening s then h_resume s else s)"
| "h_step (HTimer h) s =
     (if h \<in> fst ` set (h_timers s) then h_advance (h_clearTimeout h s) else s)"

fun h_run :: "h_event list \<Rightarrow> hs \<Rightarrow> hs" where
  "h_run [] s = s"
| "h_run (e # es) s = h_run es (h_step e s)"

text \<open>
  One animation step is one run of \<^verbatim>\<open>#advance\<close>: the pending timer fires, or,
  in the initial state where none is pending yet, \<^verbatim>\<open>#resume\<close> runs the first step.
\<close>

definition h_next :: "hs \<Rightarrow> hs" where
  "h_next s =
     (case h_timers s of [] \<Rightarrow> h_resume s | t # _ \<Rightarrow> h_step (HTimer (fst t)) s)"

fun h_steps :: "nat \<Rightarrow> hs \<Rightarrow> hs" where
  "h_steps 0 s = s"
| "h_steps (Suc n) s = h_steps n (h_next s)"

text \<open>The page of the scenario: two categories and the prefix \<^verbatim>\<open>"Search for "\<close>.\<close>

definition shoes_page :: hs where
  "shoes_page = \<lparr>h_prefixData = ''Search for '', h_categoriesData = Some [''shoes'', ''bags''],
     h_reducedMotion = False, h_timeout = None, h_index = Some 0, h_charIndex = 0,
     h_isDeleting = False, h_categories = [], h_prefix = [], h_listening = False,
     h_textContent = [], h_timers = [], h_timerCount = 0\<rparr>"

text \<open>The engine at its initial state on that page: the categories and the prefix read,
  no character typed yet.\<close>

definition shoes_initial :: hs where
  "shoes_initial = (h_construct shoes_page)\<lparr>h_prefix := trim (h_prefixData shoes_page),
     h_categories := h_getCategories shoes_page\<rparr>"

section \<open>The rendered markup\<close>

text \<open>
  An element of the page or of a fragment that the section renderer returns: its tag, its
  id, its classes, its attributes and its child elements. Every element is an HTML element.
  A fragment is the list of top-level elements that the browser reads from the returned
  text; the empty text, the only text that JavaScript takes for false, is the empty list.
  An element of the live subtree is known by its path, the child positions from the root.
\<close>

datatype node = Node (n_tag: string) (n_id: string) (n_classes: "string list")
  (n_attrs: "(string \<times> string) list") (n_kids: "node list")

type_synonym path = "nat list"

type_synonym markup = "node list"

text \<open>The descendants of an element in document order, each with its path from it.\<close>

fun descendants :: "node \<Rightarrow> (path \<times> node) list"
  and descendants_from :: "nat \<Rightarrow> node list \<Rightarrow> (path \<times> node) list" where
  "descendants (Node t i c a ks) = descendants_from 0 ks"
| "descendants_from j [] = []"
| "descendants_from j (k # ks) =
     ([j], k) # map (\<lambda>pn. (j # fst pn, snd pn)) (descendants k) @ descendants_from (Suc j) ks"

definition hasClass :: "string \<Rightarrow> node \<Rightarrow> bool" where
  "hasClass c n = (c \<in> set (n_classes n))"

definition getAttribute :: "string \<Rightarrow> node \<Rightarrow> string option" where
  "getAttribute a n = map_of (n_attrs n) a"

definition setAttribute :: "string \<Rightarrow> string \<Rightarrow> node \<Rightarrow> node" where
  "setAttribute a v n =
     Node (n_tag n) (n_id n) (n_classes n) (AList.update a v (n_attrs n)) (n_kids n)"

text \<open>\<^verbatim>\<open>querySelectorAll\<close> and \<^verbatim>\<open>querySelector\<close> below an element, and over a
  parsed document.\<close>

definition querySelectorAll :: "(node \<Rightarrow> bool) \<Rightarrow> node \<Rightarrow> (path \<times> node) list" where
  "querySelectorAll sel n = filter (\<lambda>pn. sel (snd pn)) (descendants n)"

definition querySelector :: "(node \<Rightarrow> bool) \<Rightarrow> node \<Rightarrow> (path \<times> node) option" where
  "querySelector sel n = (case querySelectorAll sel n of [] \<Rightarrow> None | pn # _ \<Rightarrow> Some pn)"

definition documentQuery :: "(node \<Rightarrow> bool) \<Rightarrow> markup \<Rightarrow> node option" where
  "documentQuery sel m = map_option snd (querySelector sel (Node [] [] [] [] m))"

text \<open>\<^verbatim>\<open>collectionElement.prepend(...children)\<close> on the first descendant that has the
  id, when there is one.\<close>

fun prependAtId :: "string \<Rightarrow> node list \<Rightarrow> node list \<Rightarrow> node list option" where
  "prependAtId i new [] = None"
| "prependAtId i new (Node t j c a kk # ks) =
     (if j = i then Some (Node t j c a (new @ kk) # ks)
      else (case prependAtId i new kk of
              Some kk' \<Rightarrow> Some (Node t j c a kk' # ks)
            | None \<Rightarrow> map_option ((#) (Node t j c a kk)) (prependAtId i new ks)))"

section \<open>The predictive search component\<close>

datatype request = PredictiveQuery string string | EmptyState | RecentlyViewedQuery string string

datatype nav = SingleResult string | ItemLink path | SearchPage string

datatype error = NoEmptySectionMarkup | Rejected string

text \<open>
  The state of a \<^verbatim>\<open>PredictiveSearchComponent\<close> and of the part of the page it works
  on. From the page: the data attributes, the text of the category links, the
  reduced-motion preference and the recently viewed products. Of the document: the value,
  focus and placeholder of the search input, whether the reset button is hidden, the
  expanded state shown (the class and \<^verbatim>\<open>aria-expanded\<close>), and the results element.
  \<open>marks\<close> holds, for the path of a result item, the value of \<^verbatim>\<open>aria-selected\<close> and
  whether the class \<^verbatim>\<open>keyboard-focus\<close> is set, once the component has written them;
  until then the item has what the markup gave it.

  \<open>tokens\<close> holds the \<^verbatim>\<open>aborted\<close> flag of every \<^verbatim>\<open>AbortController\<close> that
  \<^verbatim>\<open>#createAbortController\<close> has made, in the order made; a token is its position.
  \<open>timers\<close> are the pending placeholder timers, \<open>requests\<close> the calls of the section
  renderer so far, \<open>navigation\<close> the page or link the component went to.
\<close>

record ps =
  sectionId :: string
  prefixData :: string
  categoriesData :: "string list option"
  categoryLinkTexts :: "string list"
  reducedMotion :: bool
  viewedProducts :: "string list"
  inputValue :: string
  inputFocused :: bool
  inputPlaceholder :: string
  resetHidden :: bool
  expanded :: bool
  results :: node
  marks :: "path \<Rightarrow> (string option \<times> bool) option"
  controllerAborted :: bool
  listening :: bool
  placeholderListening :: bool
  tokens :: "bool list"
  activeFetch :: "nat option"
  placeholderTimeout :: "nat option"
  placeholderIndex :: nat
  placeholderCharIndex :: int
  placeholderIsDeleting :: bool
  placeholderCategories :: "string list"
  placeholderPrefix :: string
  placeholderOriginal :: string
  dropdownOpen :: bool
  isKeyboardNavigation :: bool
  timers :: "(nat \<times> nat) list"
  timerCount :: nat
  requests :: "request list"
  navigation :: "nav option"

text \<open>The class field initialisers, on a page \<open>pg\<close>.\<close>

definition construct :: "ps \<Rightarrow> ps" where
  "construct pg = pg\<lparr>controllerAborted := False, listening := False,
     placeholderListening := False, tokens := [], activeFetch := None,
     placeholderTimeout := None, placeholderIndex := 0, placeholderCharIndex := 0,
     placeholderIsDeleting := False, placeholderCategories := [], placeholderPrefix := [],
     placeholderOriginal := [], dropdownOpen := False, isKeyboardNavigation := False,
     timers := [], timerCount := 0, requests := [], navigation := None\<rparr>"

subsection \<open>The dropdown\<close>

definition setDropdownState :: "bool \<Rightarrow> ps \<Rightarrow> ps" where
  "setDropdownState opn s = s\<lparr>dropdownOpen := opn, expanded := opn\<rparr>"

definition openDropdown :: "ps \<Rightarrow> ps" where
  "openDropdown s = setDropdownState True s"

definition closeDropdown :: "ps \<Rightarrow> ps" where
  "closeDropdown s = setDropdownState False s"

definition syncDropdownState :: "ps \<Rightarrow> ps" where
  "syncDropdownState s = setDropdownState (dropdownOpen s) s"

definition hideResetButton :: "ps \<Rightarrow> ps" where
  "hideResetButton s = s\<lparr>resetHidden := True\<rparr>"

definition showResetButton :: "ps \<Rightarrow> ps" where
  "showResetButton s = s\<lparr>resetHidden := False\<rparr>"

subsection \<open>The placeholder animation\<close>

definition setTimeout :: "nat \<Rightarrow> ps \<Rightarrow> nat \<times> ps" where
  "setTimeout delay s =
     (let h = Suc (timerCount s)
      in (h, s\<lparr>timers := timers s @ [(h, delay)], timerCount := h\<rparr>))"

definition clearTimeout :: "nat \<Rightarrow> ps \<Rightarrow> ps" where
  "clearTimeout h s = s\<lparr>timers := filter (\<lambda>t. fst t \<noteq> h) (timers s)\<rparr>"

definition buildPlaceholder :: "ps \<Rightarrow> string \<Rightarrow> string" where
  "buildPlaceholder s typedText =
     (let prefix = placeholderPrefix s;
          spacer = (if prefix \<noteq> [] \<and> \<not> endsWithSpace prefix then '' '' else [])
      in trimEnd (prefix @ spacer @ typedText))"

text \<open>The categories of the data attribute when it holds an array, else the texts of the
  category links of the page.\<close>

definition getPlaceholderCategories :: "ps \<Rightarrow> string list" where
  "getPlaceholderCategories s =
     (case categoriesData s of
        Some xs \<Rightarrow> cleanCategories xs
      | None \<Rightarrow> filter (\<lambda>x. x \<noteq> []) (map trim (categoryLinkTexts s)))"

definition shouldAnimatePlaceholder :: "ps \<Rightarrow> bool" where
  "shouldAnimatePlaceholder s =
     (inputValue s = [] \<and> \<not> inputFocused s \<and> placeholderCategories s \<noteq> [])"

definition stopPlaceholderAnimation :: "ps \<Rightarrow> ps" where
  "stopPlaceholderAnimation s =
     (case placeholderTimeout s of
        Some h \<Rightarrow> (clearTimeout h s)\<lparr>placeholderTimeout := None\<rparr>
      | None \<Rightarrow> s)"

definition pausePlaceholderAnimation :: "ps \<Rightarrow> ps" where
  "pausePlaceholderAnimation s =
     (let s1 = stopPlaceholderAnimation s
      in if inputValue s1 = [] then s1\<lparr>inputPlaceholder := placeholderOriginal s1\<rparr> else s1)"

definition resetPlaceholderAnimation :: "ps \<Rightarrow> ps" where
  "resetPlaceholderAnimation s =
     s\<lparr>placeholderIndex := 0, placeholderCharIndex := 0, placeholderIsDeleting := False\<rparr>"

text \<open>\<^verbatim>\<open>this.#placeholderCategories[this.#placeholderIndex] || ''\<close>\<close>

definition placeholderCategory :: "ps \<Rightarrow> string" where
  "placeholderCategory s =
     (if placeholderIndex s < length (placeholderCategories s)
      then placeholderCategories s ! placeholderIndex s else [])"

text \<open>The remainder is taken behind the guard of \<^verbatim>\<open>#shouldAnimatePlaceholder\<close>, so
  by the length of a list that is not empty.\<close>

definition advancePlaceholder :: "ps \<Rightarrow> ps" where
  "advancePlaceholder s =
     (if \<not> shouldAnimatePlaceholder s then pausePlaceholderAnimation s
      else
       (let category = placeholderCategory s;
            s1 = (if placeholderIsDeleting s
                  then (let c = placeholderCharIndex s - 1
                        in if c \<le> 0
                           then (s\<lparr>placeholderCharIndex := c, placeholderIsDeleting := False,
                                    placeholderIndex :=
                                      (placeholderIndex s + 1) mod length (placeholderCategories s)\<rparr>,
                                 300)
                           else (s\<lparr>placeholderCharIndex := c\<rparr>, 40))
                  else (let c = placeholderCharIndex s + 1
                        in if c \<ge> int (length category)
                           then (s\<lparr>placeholderCharIndex := c, placeholderIsDeleting := True\<rparr>, 1200)
                           else (s\<lparr>placeholderCharIndex := c\<rparr>, 85)));
            s2 = (fst s1)\<lparr>inputPlaceholder :=
                    buildPlaceholder (fst s1) (sliceTo category (placeholderCharIndex (fst s1)))\<rparr>;
            t = setTimeout (snd s1) s2
        in (snd t)\<lparr>placeholderTimeout := Some (fst t)\<rparr>))"

definition resumePlaceholderAnimation :: "ps \<Rightarrow> ps" where
  "resumePlaceholderAnimation s =
     (if reducedMotion s then s
      else if \<not> shouldAnimatePlaceholder s then pausePlaceholderAnimation s
      else if placeholderTimeout s \<noteq> None then s
      else advancePlaceholder s)"

definition handlePlaceholderInput :: "ps \<Rightarrow> ps" where
  "handlePlaceholderInput s =
     (if inputValue s \<noteq> [] then pausePlaceholderAnimation s else resumePlaceholderAnimation s)"

text \<open>A listener added with the signal of a controller that is aborted already is not
  added.\<close>

definition setupPlaceholderAnimation :: "ps \<Rightarrow> ps" where
  "setupPlaceholderAnimation s =
     (let s1 = s\<lparr>placeholderOriginal := inputPlaceholder s\<rparr>;
          s2 = s1\<lparr>placeholderPrefix :=
                  trim (if prefixData s1 \<noteq> [] then prefixData s1 else placeholderOriginal s1)\<rparr>;
          s3 = s2\<lparr>placeholderCategories := getPlaceholderCategories s2\<rparr>
      in if placeholderCategories s3 = [] then s3
         else if reducedMotion s3 \<or> length (placeholderCategories s3) = 1
         then s3\<lparr>inputPlaceholder := buildPlaceholder s3 (hd (placeholderCategories s3))\<rparr>
         else resumePlaceholderAnimation
                (s3\<lparr>placeholderListening := (placeholderListening s3 \<or> \<not> controllerAborted s3)\<rparr>))"

subsection \<open>Focus\<close>

text \<open>
  The input gains or loses the focus, by the user or by \<^verbatim>\<open>focus()\<close> and
  \<^verbatim>\<open>blur()\<close>, and the listeners run in the order they were added: on
  \<^verbatim>\<open>focus\<close>, \<^verbatim>\<open>#openDropdown\<close> and then the pause of the placeholder; on
  \<^verbatim>\<open>blur\<close>, the resume of the placeholder, and on the \<^verbatim>\<open>focusout\<close> that
  follows, \<^verbatim>\<open>#handleFocusOut\<close>, which closes the dropdown unless the focus stays
  inside the component. Nothing happens when the focus is where it is asked to be.
\<close>

definition handleFocusOut :: "bool \<Rightarrow> ps \<Rightarrow> ps" where
  "handleFocusOut nextInside s = (if nextInside then s else closeDropdown s)"

definition focusInput :: "ps \<Rightarrow> ps" where
  "focusInput s =
     (if inputFocused s then s
      else (let s1 = s\<lparr>inputFocused := True\<rparr>;
                s2 = (if listening s1 then openDropdown s1 else s1)
            in if placeholderListening s2 then pausePlaceholderAnimation s2 else s2))"

definition blurInput :: "bool \<Rightarrow> ps \<Rightarrow> ps" where
  "blurInput nextInside s =
     (if \<not> inputFocused s then s
      else (let s1 = s\<lparr>inputFocused := False\<rparr>;
                s2 = (if placeholderListening s1 then resumePlaceholderAnimation s1 else s1)
            in if listening s2 then handleFocusOut nextInside s2 else s2))"

subsection \<open>The selected result\<close>

text \<open>
  \<^verbatim>\<open>#allResultsItems\<close>: the containers below the component in document order and,
  for each, the items below it; an item that lies below two containers is listed twice.
  The results element is the part of the component that holds them.
\<close>

definition isContainer :: "node \<Rightarrow> bool" where
  "isContainer n =
     (hasClass ''predictive-search-results__wrapper-queries'' n \<or>
      hasClass ''predictive-search-results__wrapper-products'' n \<or>
      hasClass ''predictive-search-results__list'' n)"

definition isItemOf :: "node \<Rightarrow> node \<Rightarrow> bool" where
  "isItemOf container n =
     (if hasClass ''predictive-search-results__wrapper-products'' container
      then hasClass ''predictive-search-results__card'' n
      else getAttribute ''ref'' n = Some ''resultsItems[]'' \<or>
           hasClass ''predictive-search-results__card'' n)"

definition itemsOf :: "node \<Rightarrow> (path \<times> node) list" where
  "itemsOf root =
     concat (map (\<lambda>c. map (\<lambda>pn. (fst c @ fst pn, snd pn)) (querySelectorAll (isItemOf (snd c)) (snd c)))
                 (querySelectorAll isContainer root))"

definition allResultsItems :: "ps \<Rightarrow> (path \<times> node) list" where
  "allResultsItems s = itemsOf (Node [] [] [] [] [results s])"

text \<open>What an item has for \<^verbatim>\<open>aria-selected\<close> and \<^verbatim>\<open>keyboard-focus\<close>.\<close>

definition attrsOf :: "(path \<Rightarrow> (string option \<times> bool) option) \<Rightarrow> path \<times> node \<Rightarrow> string option \<times> bool" where
  "attrsOf m it =
     (case m (fst it) of
        Some a \<Rightarrow> a
      | None \<Rightarrow> (getAttribute ''aria-selected'' (snd it), hasClass ''keyboard-focus'' (snd it)))"

fun findIndex :: "('a \<Rightarrow> bool) \<Rightarrow> 'a list \<Rightarrow> int" where
  "findIndex P [] = - 1"
| "findIndex P (x # xs) =
     (if P x then 0 else (let r = findIndex P xs in if r < 0 then - 1 else r + 1))"

definition isSelected :: "ps \<Rightarrow> path \<times> node \<Rightarrow> bool" where
  "isSelected s it = (fst (attrsOf (marks s) it) = Some ''true'')"

definition get_currentIndex :: "ps \<Rightarrow> int" where
  "get_currentIndex s = findIndex (isSelected s) (allResultsItems s)"

definition removeKeyboardFocus ::
  "path \<times> node \<Rightarrow> (path \<Rightarrow> (string option \<times> bool) option) \<Rightarrow> (path \<Rightarrow> (string option \<times> bool) option)" where
  "removeKeyboardFocus it m = m(fst it := Some (fst (attrsOf m it), False))"

text \<open>The loop over \<^verbatim>\<open>this.#allResultsItems.entries()\<close>, from position \<open>k\<close> on.\<close>

fun selectLoop ::
  "bool \<Rightarrow> int \<Rightarrow> nat \<Rightarrow> (path \<times> node) list \<Rightarrow> (path \<Rightarrow> (string option \<times> bool) option)
     \<Rightarrow> (path \<Rightarrow> (string option \<times> bool) option)" where
  "selectLoop kb index k [] m = m"
| "selectLoop kb index k (it # its) m =
     selectLoop kb index (Suc k) its
       (if int k = index
        then m(fst it := Some (Some ''true'', kb \<or> snd (attrsOf m it)))
        else m(fst it := Some (None, snd (attrsOf m it))))"

definition set_currentIndex :: "int \<Rightarrow> ps \<Rightarrow> ps" where
  "set_currentIndex index s =
     (let items = allResultsItems s
      in if items = [] then s
         else focusInput
                (s\<lparr>marks := selectLoop (isKeyboardNavigation s) index 0 items
                               (fold removeKeyboardFocus items (marks s))\<rparr>))"

definition get_currentItem :: "ps \<Rightarrow> (path \<times> node) option" where
  "get_currentItem s =
     (let i = get_currentIndex s; items = allResultsItems s
      in if 0 \<le> i \<and> i < int (length items) then Some (items ! nat i) else None)"

subsection \<open>Cancellation tokens\<close>

definition createAbortController :: "ps \<Rightarrow> nat \<times> ps" where
  "createAbortController s =
     (let t = length (tokens s);
          toks = (case activeFetch s of Some a \<Rightarrow> (tokens s)[a := True] | None \<Rightarrow> tokens s)
      in (t, s\<lparr>tokens := toks @ [False], activeFetch := Some t\<rparr>))"

text \<open>\<^verbatim>\<open>abortController.signal.aborted\<close> of a token; a position at which no token
  has been made belongs to no operation.\<close>

definition aborted :: "ps \<Rightarrow> nat \<Rightarrow> bool" where
  "aborted s t = (if t < length (tokens s) then tokens s ! t else True)"

subsection \<open>Queries\<close>

text \<open>
  Modelled from the spec: \<^verbatim>\<open>morph\<close> of \<^verbatim>\<open>@theme/morph\<close>, the reconciliation
  primitive, is not among the sources; the spec has it apply the new fragment to the
  target subtree in place. Here the results element becomes the element given, or, for
  a text, the first element read from it, and the marks that the component had written
  on the old items are gone. The scroll positions that are reset afterwards are not part
  of the state.
\<close>

definition morph :: "node \<Rightarrow> ps \<Rightarrow> ps" where
  "morph n s = s\<lparr>results := n, marks := (\<lambda>p. None)\<rparr>"

definition morphMarkup :: "markup \<Rightarrow> ps \<Rightarrow> ps" where
  "morphMarkup m s = (case m of [] \<Rightarrow> s | n # ns \<Rightarrow> morph n s)"

text \<open>\<^verbatim>\<open>#getSearchResults\<close> up to the call of the section renderer: the token of the
  query, when one was dispatched.\<close>

definition getSearchResults :: "string \<Rightarrow> ps \<Rightarrow> nat option \<times> ps" where
  "getSearchResults searchTerm s =
     (if sectionId s = [] then (None, s)
      else (let c = createAbortController s
            in (Some (fst c),
                (snd c)\<lparr>requests := requests (snd c) @ [PredictiveQuery (sectionId s) searchTerm]\<rparr>)))"

text \<open>The two continuations of the query with token \<open>t\<close>: the markup arrives, or the
  request fails.\<close>

definition getSearchResults_then :: "nat \<Rightarrow> markup \<Rightarrow> ps \<Rightarrow> ps" where
  "getSearchResults_then t resultsMarkup s =
     (if resultsMarkup = [] then s
      else if aborted s t then s
      else syncDropdownState (morphMarkup resultsMarkup s))"

definition getSearchResults_catch :: "nat \<Rightarrow> error \<Rightarrow> ps \<Rightarrow> error + ps" where
  "getSearchResults_catch t err s = (if aborted s t then Inr s else Inl err)"

subsection \<open>The reset of the search\<close>

text \<open>\<^verbatim>\<open>viewedProducts.map((id) => `id:${id}`).join(' OR ')\<close>\<close>

fun joinOr :: "string list \<Rightarrow> string" where
  "joinOr [] = []"
| "joinOr [x] = x"
| "joinOr (x # y # ys) = x @ '' OR '' @ joinOr (y # ys)"

definition recentlyViewedQuery :: "ps \<Rightarrow> string" where
  "recentlyViewedQuery s = joinOr (map (\<lambda>i. ''id:'' @ i) (viewedProducts s))"

text \<open>\<^verbatim>\<open>#resetSearch\<close> up to its first \<^verbatim>\<open>await\<close>: the token of the reset.\<close>

definition resetSearch_start :: "ps \<Rightarrow> nat \<times> ps" where
  "resetSearch_start s =
     (let s1 = set_currentIndex (- 1) s;
          s2 = s1\<lparr>inputValue := []\<rparr>;
          s3 = hideResetButton s2;
          c = createAbortController s3
      in (fst c, (snd c)\<lparr>requests := requests (snd c) @ [EmptyState]\<rparr>))"

text \<open>The end of \<^verbatim>\<open>#resetSearch\<close>, behind the last \<^verbatim>\<open>await\<close>, with the
  empty section element \<open>e\<close> to show.\<close>

definition resetSearch_apply :: "nat \<Rightarrow> node \<Rightarrow> ps \<Rightarrow> ps" where
  "resetSearch_apply t e s =
     (if aborted s t then s
      else resumePlaceholderAnimation
             (resetPlaceholderAnimation (syncDropdownState (morph e s))))"

text \<open>
  The markup of the empty section arrives. Without the element of the empty section the
  function throws. With recently viewed products it goes on to
  \<^verbatim>\<open>#getRecentlyViewedProductsMarkup\<close>, which gives \<^verbatim>\<open>null\<close> without a section
  id, and the function returns, or else asks the section renderer: the result is then
  the empty section element that waits for that markup.
\<close>

definition resetSearch_emptyMarkup :: "nat \<Rightarrow> markup \<Rightarrow> ps \<Rightarrow> error + (node option \<times> ps)" where
  "resetSearch_emptyMarkup t emptySectionMarkup s =
     (case documentQuery (hasClass ''predictive-search-empty-section'') emptySectionMarkup of
        None \<Rightarrow> Inl NoEmptySectionMarkup
      | Some e \<Rightarrow>
          if viewedProducts s \<noteq> []
          then (if sectionId s = [] then Inr (None, s)
                else Inr (Some e,
                          s\<lparr>requests := requests s @
                               [RecentlyViewedQuery (sectionId s) (recentlyViewedQuery s)]\<rparr>))
          else Inr (None, resetSearch_apply t e s))"

text \<open>The children of the products element of the recently viewed markup, marked, go
  in front of the children of the products element of the empty section.\<close>

definition mergeRecentlyViewed :: "node \<Rightarrow> markup \<Rightarrow> node" where
  "mergeRecentlyViewed e recentlyViewedMarkup =
     (case documentQuery (\<lambda>n. n_id n = ''predictive-search-products'') recentlyViewedMarkup of
        None \<Rightarrow> e
      | Some r \<Rightarrow>
          (case prependAtId ''predictive-search-products''
                  (map (setAttribute ''ref'' ''recentlyViewedWrapper'') (n_kids r)) (n_kids e) of
             None \<Rightarrow> e
           | Some ks \<Rightarrow> Node (n_tag e) (n_id e) (n_classes e) (n_attrs e) ks))"

text \<open>The markup of the recently viewed products arrives.\<close>

definition resetSearch_recentMarkup :: "nat \<Rightarrow> node \<Rightarrow> markup \<Rightarrow> ps \<Rightarrow> ps" where
  "resetSearch_recentMarkup t e recentlyViewedMarkup s =
     (if recentlyViewedMarkup = [] then s
      else resetSearch_apply t (mergeRecentlyViewed e recentlyViewedMarkup) s)"

subsection \<open>The handlers\<close>

text \<open>The function that \<^verbatim>\<open>resetSearch\<close> debounces.\<close>

definition resetSearch :: "bool \<Rightarrow> ps \<Rightarrow> nat \<times> ps" where
  "resetSearch keepFocus s = resetSearch_start (if keepFocus then focusInput s else s)"

text \<open>The function that \<^verbatim>\<open>search\<close> debounces, on an input event whose
  \<^verbatim>\<open>inputType\<close> is given when the event has one.\<close>

definition falsy :: "string option \<Rightarrow> bool" where
  "falsy v = (case v of None \<Rightarrow> True | Some x \<Rightarrow> x = [])"

definition search :: "string option \<Rightarrow> ps \<Rightarrow> ps" where
  "search inputType s =
     (if falsy inputType then s
      else (let searchTerm = trim (inputValue s);
                s1 = set_currentIndex (- 1) s
            in if searchTerm = [] then snd (resetSearch_start s1)
               else snd (getSearchResults searchTerm (showResetButton s1))))"

definition keyEnterItem :: "ps \<Rightarrow> ps" where
  "keyEnterItem s =
     (if get_currentIndex s \<ge> 0
      then (case get_currentItem s of
              None \<Rightarrow> s
            | Some it \<Rightarrow>
                (case querySelector (\<lambda>n. n_tag n = ''a'') (snd it) of
                   None \<Rightarrow> s
                 | Some a \<Rightarrow> s\<lparr>navigation := Some (ItemLink (fst it @ fst a))\<rparr>))
      else s\<lparr>navigation := Some (SearchPage (inputValue s))\<rparr>)"

definition keyEnter :: "ps \<Rightarrow> ps" where
  "keyEnter s =
     (case querySelector (\<lambda>n. getAttribute ''data-single-result-url'' n \<noteq> None) (results s) of
        Some pn \<Rightarrow>
          (case getAttribute ''data-single-result-url'' (snd pn) of
             Some url \<Rightarrow> if url \<noteq> [] then s\<lparr>navigation := Some (SingleResult url)\<rparr>
                         else keyEnterItem s
           | None \<Rightarrow> keyEnterItem s)
      | None \<Rightarrow> keyEnterItem s)"

definition onSearchKeyDown :: "string \<Rightarrow> bool \<Rightarrow> ps \<Rightarrow> ps" where
  "onSearchKeyDown key shiftKey s =
     (if key = ''Escape'' then blurInput False (snd (resetSearch_start (closeDropdown s)))
      else if allResultsItems s = [] \<or> key = ''ArrowLeft'' \<or> key = ''ArrowRight'' then s
      else (let currentIndex = get_currentIndex s;
                totalItems = int (length (allResultsItems s));
                down = (if currentIndex < totalItems - 1 then currentIndex + 1 else 0);
                up = (if currentIndex > 0 then currentIndex - 1 else totalItems - 1)
            in if key = ''ArrowDown'' then set_currentIndex down (s\<lparr>isKeyboardNavigation := True\<rparr>)
               else if key = ''Tab''
               then set_currentIndex (if shiftKey then up else down) (s\<lparr>isKeyboardNavigation := True\<rparr>)
               else if key = ''ArrowUp'' then set_currentIndex up (s\<lparr>isKeyboardNavigation := True\<rparr>)
               else if key = ''Enter'' then keyEnter s
               else s))"

definition handleDialogClose :: "ps \<Rightarrow> ps" where
  "handleDialogClose s = snd (resetSearch_start (closeDropdown s))"

definition handleOutsideClick :: "bool \<Rightarrow> ps \<Rightarrow> ps" where
  "handleOutsideClick inside s =
     (if \<not> dropdownOpen s then s
      else if inside then s
      else blurInput False (closeDropdown s))"

definition handleModalClick :: "bool \<Rightarrow> ps \<Rightarrow> ps" where
  "handleModalClick interactive s = (if interactive then s else focusInput s)"

definition connectedCallback :: "ps \<Rightarrow> ps" where
  "connectedCallback s =
     (let s1 = (if inputValue s \<noteq> [] then showResetButton s else s);
          s2 = setDropdownState False s1;
          s3 = s2\<lparr>listening := (listening s2 \<or> \<not> controllerAborted s2)\<rparr>;
          s4 = (if inputFocused s3 then openDropdown s3 else s3)
      in setupPlaceholderAnimation s4)"

definition disconnectedCallback :: "ps \<Rightarrow> ps" where
  "disconnectedCallback s =
     stopPlaceholderAnimation
       (s\<lparr>controllerAborted := True, listening := False, placeholderListening := False\<rparr>)"

subsection \<open>Events\<close>

text \<open>
  What can happen to the component. The user focuses the input, leaves it (for an element
  inside the component or not), edits its value, presses a key in it, clicks outside or
  inside the component, a category link, or in the modal (on an interactive element or
  not); the dialog closes; the recently viewed products are cleared (the removal of their
  wrapper from the page is left out). The functions that \<^verbatim>\<open>search\<close> and
  \<^verbatim>\<open>resetSearch\<close> debounce run: \<^verbatim>\<open>debounce\<close> itself, of
  \<^verbatim>\<open>@theme/utilities\<close>, is not among the sources, and an event stands for one
  firing of it. A pending placeholder timer fires. The section renderer answers a query
  or one of the two requests of a reset, with markup or with a failure; the answer names
  the token of its operation, and an answer for a token that was never made does not
  occur.
\<close>

datatype ps_event =
    Connect | Disconnect
  | Focus | Blur bool | Input string | KeyDown string bool
  | OutsideClick bool | CategoryClick | ModalClick bool | DialogClose | ClearRecentlyViewed
  | SearchFire "string option" | ResetFire bool
  | PlaceholderTimer nat
  | QueryResolved nat markup | QueryRejected nat string
  | EmptyResolved nat markup | EmptyRejected nat string
  | RecentResolved nat node markup | RecentRejected nat string

fun ps_step :: "ps_event \<Rightarrow> ps \<Rightarrow> error + ps" where
  "ps_step Connect s = Inr (connectedCallback s)"
| "ps_step Disconnect s = Inr (disconnectedCallback s)"
| "ps_step Focus s = Inr (focusInput s)"
| "ps_step (Blur nextInside) s = Inr (blurInput nextInside s)"
| "ps_step (Input v) s =
     Inr (let s1 = s\<lparr>inputValue := v\<rparr>;
              s2 = (if listening s1 then openDropdown s1 else s1)
          in if placeholderListening s2 then handlePlaceholderInput s2 else s2)"
| "ps_step (KeyDown key shiftKey) s = Inr (onSearchKeyDown key shiftKey s)"
| "ps_step (OutsideClick inside) s = Inr (if listening s then handleOutsideClick inside s else s)"
| "ps_step CategoryClick s = Inr (if listening s then closeDropdown s else s)"
| "ps_step (ModalClick interactive) s =
     Inr (if listening s then handleModalClick interactive s else s)"
| "ps_step DialogClose s = Inr (if listening s then handleDialogClose s else s)"
| "ps_step ClearRecentlyViewed s = Inr (s\<lparr>viewedProducts := []\<rparr>)"
| "ps_step (SearchFire inputType) s = Inr (search inputType s)"
| "ps_step (ResetFire keepFocus) s = Inr (snd (resetSearch keepFocus s))"
| "ps_step (PlaceholderTimer h) s =
     Inr (if h \<in> fst ` set (timers s) then advancePlaceholder (clearTimeout h s) else s)"
| "ps_step (QueryResolved t m) s =
     Inr (if t < length (tokens s) then getSearchResults_then t m s else s)"
| "ps_step (QueryRejected t msg) s =
     (if t < length (tokens s) then getSearchResults_catch t (Rejected msg) s else Inr s)"
| "ps_step (EmptyResolved t m) s =
     (if t < length (tokens s)
      then (case resetSearch_emptyMarkup t m s of Inl err \<Rightarrow> Inl err | Inr r \<Rightarrow> Inr (snd r))
      else Inr s)"
| "ps_step (EmptyRejected t msg) s = (if t < length (tokens s) then Inl (Rejected msg) else Inr s)"
| "ps_step (RecentResolved t e m) s =
     Inr (if t < length (tokens s) then resetSearch_recentMarkup t e m s else s)"
| "ps_step (RecentRejected t msg) s = (if t < length (tokens s) then Inl (Rejected msg) else Inr s)"

text \<open>An error that a handler throws is reported and leaves the state as it was.\<close>

definition ps_after :: "ps_event \<Rightarrow> ps \<Rightarrow> ps" where
  "ps_after e s = (case ps_step e s of Inl err \<Rightarrow> s | Inr s' \<Rightarrow> s')"

fun ps_run :: "ps_event list \<Rightarrow> ps \<Rightarrow> ps" where
  "ps_run [] s = s"
| "ps_run (e # es) s = ps_run es (ps_after e s)"



text \<open>
  A whole run of \<^verbatim>\<open>resetSearch(keepFocus)\<close>, nothing else happening meanwhile: the
  debounced function runs, the section renderer answers with the markup \<open>m1\<close> of the
  empty section and, when asked, with the markup \<open>m2\<close> of the recently viewed products.
\<close>

definition resetSearch_run :: "bool \<Rightarrow> markup \<Rightarrow> markup \<Rightarrow> ps \<Rightarrow> ps" where
  "resetSearch_run keepFocus m1 m2 s =
     (let r = resetSearch keepFocus s
      in (case resetSearch_emptyMarkup (fst r) m1 (snd r) of
            Inl err \<Rightarrow> snd r
          | Inr (None, s') \<Rightarrow> s'
          | Inr (Some e, s') \<Rightarrow> resetSearch_recentMarkup (fst r) e m2 s'))"

section \<open>Invariants\<close>

text \<open>At most one placeholder timer of the header is pending, and the field
  \<^verbatim>\<open>#timeout\<close> holds its handle.\<close>

definition h_timerOk :: "hs \<Rightarrow> bool" where
  "h_timerOk s = (map fst (h_timers s) = (case h_timeout s of None \<Rightarrow> [] | Some h \<Rightarrow> [h]))"

text \<open>The header with no category: connected, it shows the prefix and has never set a
  timer.\<close>

definition h_idle :: "hs \<Rightarrow> hs \<Rightarrow> bool" where
  "h_idle pg s =
     (h_prefixData s = h_prefixData pg \<and> h_categoriesData s = h_categoriesData pg \<and>
      \<not> h_listening s \<and> h_timers s = [] \<and> h_timerCount s = 0 \<and> h_timeout s = None \<and>
      h_textContent s = trim (h_prefixData pg))"


text \<open>
  A property of the state that every elementary change keeps: the writes of the fields
  that the handlers make, a new cancellation token, \<^verbatim>\<open>morph\<close>, the functions of
  the placeholder animation, and a pending timer that fires. Such a property holds after
  every event, since the handlers are made of these changes.
\<close>

definition closed :: "(ps \<Rightarrow> bool) \<Rightarrow> bool" where
  "closed P =
     (\<forall>s. P s \<longrightarrow>
        (\<forall>v. P (s\<lparr>inputValue := v\<rparr>)) \<and>
        (\<forall>v. P (s\<lparr>inputFocused := v\<rparr>)) \<and>
        (\<forall>v. P (s\<lparr>resetHidden := v\<rparr>)) \<and>
        (\<forall>v. P (setDropdownState v s)) \<and>
        (\<forall>v. P (s\<lparr>marks := v\<rparr>)) \<and>
        (\<forall>v. P (morph v s)) \<and>
        P (snd (createAbortController s)) \<and>
        (\<forall>v. P (s\<lparr>requests := v\<rparr>)) \<and>
        (\<forall>v. P (s\<lparr>navigation := v\<rparr>)) \<and>
        (\<forall>v. P (s\<lparr>isKeyboardNavigation := v\<rparr>)) \<and>
        (\<forall>v. P (s\<lparr>viewedProducts := v\<rparr>)) \<and>
        (\<forall>v. P (s\<lparr>listening := v\<rparr>)) \<and>
        (\<forall>v. P (s\<lparr>placeholderListening := v\<rparr>)) \<and>
        (\<forall>v. P (s\<lparr>controllerAborted := v\<rparr>)) \<and>
        P (stopPlaceholderAnimation s) \<and>
        P (pausePlaceholderAnimation s) \<and>
        P (resumePlaceholderAnimation s) \<and>
        P (resetPlaceholderAnimation s) \<and>
        P (setupPlaceholderAnimation s) \<and>
        (\<forall>h. h \<in> fst ` set (timers s) \<longrightarrow> P (advancePlaceholder (clearTimeout h s))))"

text \<open>The pending placeholder timers of the predictive search are those whose handle
  \<^verbatim>\<open>#placeholderTimeout\<close> holds.\<close>

definition timerOk :: "ps \<Rightarrow> bool" where
  "timerOk s = (map fst (timers s) = (case placeholderTimeout s of None \<Rightarrow> [] | Some h \<Rightarrow> [h]))"

text \<open>The predictive search with no category: it has never set a timer and the input
  has the placeholder of the page.\<close>

definition idle :: "ps \<Rightarrow> ps \<Rightarrow> bool" where
  "idle pg s =
     (categoriesData s = categoriesData pg \<and> categoryLinkTexts s = categoryLinkTexts pg \<and>
      placeholderCategories s = [] \<and> timers s = [] \<and> timerCount s = 0 \<and>
      placeholderTimeout s = None \<and> inputPlaceholder s = inputPlaceholder pg \<and>
      placeholderOriginal s = inputPlaceholder pg)"

text \<open>A token is issued when it is the active one or aborted, superseded when it is
  aborted; every token that is not aborted is the active one; the tokens that are not
  aborted.\<close>

definition issued :: "nat \<Rightarrow> ps \<Rightarrow> bool" where
  "issued a s = (a < length (tokens s) \<and> (tokens s ! a \<or> activeFetch s = Some a))"

definition superseded :: "nat \<Rightarrow> ps \<Rightarrow> bool" where
  "superseded a s = (a < length (tokens s) \<and> tokens s ! a)"

definition oneLive :: "ps \<Rightarrow> bool" where
  "oneLive s = (\<forall>i < length (tokens s). \<not> tokens s ! i \<longrightarrow> activeFetch s = Some i)"

definition liveTokens :: "ps \<Rightarrow> nat list" where
  "liveTokens s = filter (\<lambda>i. \<not> tokens s ! i) [0..<length (tokens s)]"



text \<open>
  For the reset of the search: the placeholder state; the element that a run of the reset
  shows, if it shows one, given the two responses; the end of the reset when its token is
  not aborted; the marks once the selection is cleared; the part of the state that the
  placeholder and the focus leave alone; and the placeholder state that a pause leaves.
\<close>

definition placeholderState ::
  "ps \<Rightarrow> nat option \<times> (nat \<times> nat) list \<times> nat \<times> int \<times> bool \<times> string list \<times> string \<times> string \<times> string" where
  "placeholderState s =
     (placeholderTimeout s, timers s, placeholderIndex s, placeholderCharIndex s,
      placeholderIsDeleting s, placeholderCategories s, placeholderPrefix s,
      placeholderOriginal s, inputPlaceholder s)"

definition resetOutcome :: "ps \<Rightarrow> markup \<Rightarrow> markup \<Rightarrow> node option" where
  "resetOutcome s m1 m2 =
     (case documentQuery (hasClass ''predictive-search-empty-section'') m1 of
        None \<Rightarrow> None
      | Some e \<Rightarrow>
          if viewedProducts s \<noteq> []
          then (if sectionId s = [] \<or> m2 = [] then None else Some (mergeRecentlyViewed e m2))
          else Some e)"

definition applyEmpty :: "node \<Rightarrow> ps \<Rightarrow> ps" where
  "applyEmpty e s =
     resumePlaceholderAnimation (resetPlaceholderAnimation (syncDropdownState (morph e s)))"

definition clearedMarks :: "ps \<Rightarrow> path \<Rightarrow> (string option \<times> bool) option" where
  "clearedMarks s =
     selectLoop (isKeyboardNavigation s) (- 1) 0 (allResultsItems s)
       (fold removeKeyboardFocus (allResultsItems s) (marks s))"

definition fixedPart ::
  "ps \<Rightarrow> node \<times> (path \<Rightarrow> (string option \<times> bool) option) \<times> string \<times> bool \<times> string list \<times> string \<times> bool \<times> string list \<times> string \<times> string" where
  "fixedPart s =
     (results s, marks s, inputValue s, resetHidden s, viewedProducts s, sectionId s,
      reducedMotion s, placeholderCategories s, placeholderPrefix s, placeholderOriginal s)"

definition pausedState ::
  "bool \<Rightarrow> nat option \<times> (nat \<times> nat) list \<times> nat \<times> int \<times> bool \<times> string list \<times> string \<times> string \<times> string
     \<Rightarrow> nat option \<times> (nat \<times> nat) list \<times> nat \<times> int \<times> bool \<times> string list \<times> string \<times> string \<times> string" where
  "pausedState r p =
     (case p of (t, tm, i, c, d, cats, pre, orig, ph) \<Rightarrow>
        if r then (t, tm, 0, 0, False, cats, pre, orig, ph)
        else (None, (case t of None \<Rightarrow> tm | Some h \<Rightarrow> filter (\<lambda>x. fst x \<noteq> h) tm),
              0, 0, False, cats, pre, orig, orig))"

section \<open>Example pages\<close>

text \<open>A page with the predictive search: two placeholder categories, no result rendered
  yet, nothing typed, and the markup that the section renderer returns for a query with
  four results and for the empty state with one product card.\<close>

definition demo_page :: ps where
  "demo_page = \<lparr>sectionId = ''predictive-search'', prefixData = ''Search for '',
     categoriesData = Some [''shoes'', ''bags''], categoryLinkTexts = [],
     reducedMotion = False, viewedProducts = [], inputValue = [], inputFocused = False,
     inputPlaceholder = ''Search'', resetHidden = True, expanded = False,
     results = Node ''div'' [] [''predictive-search-results''] [] [],
     marks = (\<lambda>p. None), controllerAborted = False, listening = False,
     placeholderListening = False, tokens = [], activeFetch = None,
     placeholderTimeout = None, placeholderIndex = 0, placeholderCharIndex = 0,
     placeholderIsDeleting = False, placeholderCategories = [], placeholderPrefix = [],
     placeholderOriginal = [], dropdownOpen = False, isKeyboardNavigation = False,
     timers = [], timerCount = 0, requests = [], navigation = None\<rparr>"

definition demo_item :: node where
  "demo_item = Node ''li'' [] [''predictive-search-results__card''] [(''ref'', ''resultsItems[]'')]
     [Node ''a'' [] [] [(''href'', ''/products/x'')] []]"

definition demo_results :: node where
  "demo_results = Node ''div'' [] [''predictive-search-results''] []
     [Node ''ul'' [] [''predictive-search-results__list''] []
        [demo_item, demo_item, demo_item, demo_item]]"

definition demo_empty :: node where
  "demo_empty = Node ''div'' [] [''predictive-search-empty-section''] []
     [Node ''div'' ''predictive-search-products'' [''predictive-search-results__wrapper-products''] []
        [Node ''div'' [] [''predictive-search-results__card''] [] []]]"

text \<open>Two queries on that page, the second dispatched while the first is in flight.\<close>

definition demo_queryA :: "nat option \<times> ps" where
  "demo_queryA = getSearchResults ''re'' (connectedCallback (construct demo_page))"

definition demo_queryB :: "nat option \<times> ps" where
  "demo_queryB = getSearchResults ''red'' (snd demo_queryA)"

text \<open>The page with a single category, after the first reset has shown the empty state
  and the user has focused the input; and the pages with no category.\<close>

definition demo_single :: ps where
  "demo_single =
     ps_run [Connect, ResetFire False, EmptyResolved 0 [demo_empty], Focus]
       (construct (demo_page\<lparr>categoriesData := Some [''bags'']\<rparr>))"

definition demo_none :: ps where
  "demo_none = demo_page\<lparr>categoriesData := Some []\<rparr>"

definition shoes_none :: hs where
  "shoes_none = shoes_page\<lparr>h_categoriesData := Some []\<rparr>"

text \<open>The pages whose categories are white space only, a no-break space among it, and
  whose prefix ends in a no-break space.\<close>

definition shoes_blank :: hs where
  "shoes_blank = shoes_page\<lparr>h_prefixData := ''Search for'' @ [CHR 0xA0],
     h_categoriesData := Some [[CHR 0xA0], '' '', [CHR 0x09, CHR 0xA0]]\<rparr>"

definition demo_blank :: ps where
  "demo_blank = demo_page\<lparr>prefixData := ''Search for'' @ [CHR 0xA0],
     categoriesData := Some [[CHR 0xA0], '' '', [CHR 0x09, CHR 0xA0]]\<rparr>"


text \<open>The page after a query has rendered its four results; and results whose list lies
  inside a wrapper of queries, so that each of the two items is below two containers.\<close>

definition demo_shown :: ps where
  "demo_shown =
     ps_run [Connect, Focus, Input ''re'', SearchFire (Some ''insertText''),
             QueryResolved 0 [demo_results]] (construct demo_page)"

definition demo_nested :: ps where
  "demo_nested = demo_shown\<lparr>results :=
     Node ''div'' [] [''predictive-search-results__wrapper-queries''] []
       [Node ''ul'' [] [''predictive-search-results__list''] []
          [Node ''li'' [] [] [(''ref'', ''resultsItems[]'')] [],
           Node ''li'' [] [] [(''ref'', ''resultsItems[]'')] []]]\<rparr>"

text \<open>The page loaded with a term in the input, connected; and an empty state without any
  result item.\<close>

definition demo_prefilled :: ps where
  "demo_prefilled =
     connectedCallback (construct (demo_page\<lparr>inputValue := ''red'', resetHidden := False\<rparr>))"

definition demo_plain :: node where
  "demo_plain = Node ''div'' [] [''predictive-search-empty-section''] []
     [Node ''p'' [] [] [] []]"

section \<open>Results\<close>

lemma shoes_initial_eval:
  "shoes_initial = shoes_page\<lparr>h_prefix := ''Search for'', h_categories := [''shoes'', ''bags'']\<rparr>"
  by (simp add: shoes_initial_def shoes_page_def h_construct_def h_getCategories_def
      cleanCategories_def trim_def trimEnd_def trimStart_def js_space_def)

text \<open>\<^verbatim>\<open>trim\<close> removes the no-break space as it removes the space.\<close>

lemma trim_no_break_space:
  "trim [CHR 0xA0] = [] \<and> trim ([CHR 0xA0] @ ''bags'' @ [CHR 0xA0, CHR '' '']) = ''bags'' \<and>
   trimEnd (''Search for'' @ [CHR 0xA0]) = ''Search for'' \<and>
   cleanCategories [[CHR 0xA0], ''shoes'' @ [CHR 0xA0], '' ''] = [''shoes'']"
  by code_simp

subsection \<open>The header: one timer at most\<close>

lemma h_timerOk_cases:
  "h_timerOk s \<longleftrightarrow>
     h_timers s = [] \<and> h_timeout s = None \<or> (\<exists>h d. h_timers s = [(h, d)] \<and> h_timeout s = Some h)"
  by (cases "h_timeout s") (auto simp: h_timerOk_def)

lemma h_advance_timers:
  "h_timers s = [] \<Longrightarrow> \<exists>h d. h_timers (h_advance s) = [(h, d)] \<and> h_timeout (h_advance s) = Some h"
  by (simp add: h_advance_def h_setTimeout_def Let_def)

lemma h_timerOk_advance: "h_timers s = [] \<Longrightarrow> h_timerOk (h_advance s)"
  using h_advance_timers[of s] by (auto simp: h_timerOk_cases)

lemma h_timerOk_resume: "h_timerOk s \<Longrightarrow> h_timerOk (h_resume s)"
  using h_advance_timers[of s] by (auto simp: h_resume_def h_timerOk_cases)

lemma h_timerOk_stop: "h_timerOk s \<Longrightarrow> h_timerOk (h_stop s)"
  by (auto simp: h_stop_def h_timerOk_cases h_clearTimeout_def split: option.splits)

lemma h_timerOk_connected: "h_timerOk s \<Longrightarrow> h_timerOk (h_connectedCallback s)"
proof -
  assume ok: "h_timerOk s"
  have upd: "\<And>f g h t. h_timerOk (s\<lparr>h_prefix := f, h_categories := g, h_listening := h\<rparr>)"
    "\<And>f g t. h_timerOk (s\<lparr>h_prefix := f, h_categories := g, h_textContent := t\<rparr>)"
    using ok by (simp_all add: h_timerOk_cases)
  show ?thesis
    by (simp add: h_connectedCallback_def Let_def upd h_timerOk_resume)
qed

lemma h_timerOk_step: "h_timerOk s \<Longrightarrow> h_timerOk (h_step e s)"
proof (cases e)
  case (HTimer h)
  assume ok: "h_timerOk s"
  show ?thesis
  proof (cases "h \<in> fst ` set (h_timers s)")
    case True
    with ok have "h_timers (h_clearTimeout h s) = []"
      by (auto simp: h_timerOk_cases h_clearTimeout_def)
    then show ?thesis using HTimer True by (simp add: h_timerOk_advance)
  next
    case False
    then show ?thesis using HTimer ok by simp
  qed
qed (simp_all add: h_timerOk_connected h_timerOk_resume h_timerOk_stop h_pause_def
      h_disconnectedCallback_def)

lemma h_timerOk_run: "h_timerOk s \<Longrightarrow> h_timerOk (h_run es s)"
  by (induction es arbitrary: s) (simp_all add: h_timerOk_step)

lemma h_timerOk_construct: "h_timerOk (h_construct pg)"
  by (simp add: h_timerOk_cases h_construct_def)

lemma h_timerOk_length: "h_timerOk s \<Longrightarrow> length (h_timers s) \<le> 1"
  by (auto simp: h_timerOk_cases)

lemma h_resume_pending: "h_timeout s \<noteq> None \<Longrightarrow> h_resume s = s"
  by (simp add: h_resume_def)

subsection \<open>The header: no category, and the typing cycle\<close>

lemma h_idle_connected:
  assumes "h_getCategories pg = []" "h_prefixData s = h_prefixData pg"
    "h_categoriesData s = h_categoriesData pg" "\<not> h_listening s" "h_timers s = []"
    "h_timerCount s = 0" "h_timeout s = None"
  shows "h_idle pg (h_connectedCallback s)"
  using assms by (simp add: h_idle_def h_connectedCallback_def h_getCategories_def Let_def)

lemma h_idle_step: "h_getCategories pg = [] \<Longrightarrow> h_idle pg s \<Longrightarrow> h_idle pg (h_step e s)"
proof (cases e)
  case HConnect
  assume "h_getCategories pg = []" "h_idle pg s"
  then have "h_idle pg (h_connectedCallback s)"
    by (intro h_idle_connected) (simp_all add: h_idle_def)
  then show ?thesis using HConnect by simp
qed (simp_all add: h_idle_def h_disconnectedCallback_def h_stop_def)

lemma h_idle_run: "h_getCategories pg = [] \<Longrightarrow> h_idle pg s \<Longrightarrow> h_idle pg (h_run es s)"
  by (induction es arbitrary: s) (simp_all add: h_idle_step)

lemma h_idle_start: "h_getCategories pg = [] \<Longrightarrow> h_idle pg (h_connectedCallback (h_construct pg))"
  by (rule h_idle_connected) (simp_all add: h_construct_def)



lemma h_category_upd [simp]:
  "h_category (s\<lparr>h_timers := a\<rparr>) = h_category s"
  "h_category (s\<lparr>h_charIndex := c\<rparr>) = h_category s"
  "h_category (s\<lparr>h_isDeleting := d\<rparr>) = h_category s"
  "h_category (s\<lparr>h_textContent := x\<rparr>) = h_category s"
  "h_category (s\<lparr>h_timeout := y\<rparr>) = h_category s"
  "h_category (s\<lparr>h_timerCount := z\<rparr>) = h_category s"
  by (simp_all add: h_category_def split: option.splits)













subsection \<open>The predictive search: what every event keeps\<close>

lemma closedD:
  assumes "closed P" "P s"
  shows "P (s\<lparr>inputValue := v1\<rparr>)" "P (s\<lparr>inputFocused := v2\<rparr>)" "P (s\<lparr>resetHidden := v3\<rparr>)"
    "P (setDropdownState v4 s)" "P (s\<lparr>marks := v5\<rparr>)" "P (morph v6 s)"
    "P (snd (createAbortController s))" "P (s\<lparr>requests := v7\<rparr>)" "P (s\<lparr>navigation := v8\<rparr>)"
    "P (s\<lparr>isKeyboardNavigation := v9\<rparr>)" "P (s\<lparr>viewedProducts := v10\<rparr>)"
    "P (s\<lparr>listening := v11\<rparr>)" "P (s\<lparr>placeholderListening := v12\<rparr>)"
    "P (s\<lparr>controllerAborted := v13\<rparr>)"
    "P (stopPlaceholderAnimation s)" "P (pausePlaceholderAnimation s)"
    "P (resumePlaceholderAnimation s)" "P (resetPlaceholderAnimation s)"
    "P (setupPlaceholderAnimation s)"
proof -
  note * = assms(1)[unfolded closed_def, THEN spec, THEN mp, OF assms(2)]
  show "P (s\<lparr>inputValue := v1\<rparr>)" "P (s\<lparr>inputFocused := v2\<rparr>)" "P (s\<lparr>resetHidden := v3\<rparr>)"
    "P (setDropdownState v4 s)" "P (s\<lparr>marks := v5\<rparr>)" "P (morph v6 s)"
    "P (snd (createAbortController s))" "P (s\<lparr>requests := v7\<rparr>)" "P (s\<lparr>navigation := v8\<rparr>)"
    "P (s\<lparr>isKeyboardNavigation := v9\<rparr>)" "P (s\<lparr>viewedProducts := v10\<rparr>)"
    "P (s\<lparr>listening := v11\<rparr>)" "P (s\<lparr>placeholderListening := v12\<rparr>)"
    "P (s\<lparr>controllerAborted := v13\<rparr>)"
    "P (stopPlaceholderAnimation s)" "P (pausePlaceholderAnimation s)"
    "P (resumePlaceholderAnimation s)" "P (resetPlaceholderAnimation s)"
    "P (setupPlaceholderAnimation s)"
    using * by simp_all
qed

lemma closed_timer:
  "closed P \<Longrightarrow> P s \<Longrightarrow> h \<in> fst ` set (timers s) \<Longrightarrow> P (advancePlaceholder (clearTimeout h s))"
  unfolding closed_def by simp

lemma closed_dropdown:
  assumes c: "closed P" and p: "P s"
  shows "P (openDropdown s)" "P (closeDropdown s)" "P (syncDropdownState s)"
    "P (hideResetButton s)" "P (showResetButton s)" "P (handleFocusOut b s)"
  using closedD[OF c p] p
  by (simp_all add: openDropdown_def closeDropdown_def syncDropdownState_def
      hideResetButton_def showResetButton_def handleFocusOut_def)

lemma closed_handlePlaceholderInput:
  assumes c: "closed P" and p: "P s" shows "P (handlePlaceholderInput s)"
  using closedD[OF c p] by (simp add: handlePlaceholderInput_def)

lemma closed_focusInput:
  assumes c: "closed P" and p: "P s" shows "P (focusInput s)"
proof -
  note r = closedD[OF c] closed_dropdown[OF c]
  show ?thesis using p by (auto simp: focusInput_def Let_def intro!: r)
qed

lemma closed_blurInput:
  assumes c: "closed P" and p: "P s" shows "P (blurInput b s)"
proof -
  note r = closedD[OF c] closed_dropdown[OF c]
  show ?thesis using p by (auto simp: blurInput_def Let_def intro!: r)
qed

lemma closed_set_currentIndex:
  assumes c: "closed P" and p: "P s" shows "P (set_currentIndex i s)"
proof -
  note r = closedD[OF c] closed_focusInput[OF c]
  show ?thesis using p by (auto simp: set_currentIndex_def Let_def intro!: r)
qed

lemma closed_getSearchResults:
  assumes c: "closed P" and p: "P s" shows "P (snd (getSearchResults t s))"
proof -
  note r = closedD[OF c]
  show ?thesis using p by (auto simp: getSearchResults_def Let_def intro!: r)
qed

lemma closed_resetSearch_start:
  assumes c: "closed P" and p: "P s" shows "P (snd (resetSearch_start s))"
proof -
  note r = closedD[OF c] closed_dropdown[OF c] closed_set_currentIndex[OF c]
  show ?thesis using p by (auto simp: resetSearch_start_def Let_def intro!: r)
qed

lemma closed_resetSearch:
  assumes c: "closed P" and p: "P s" shows "P (snd (resetSearch k s))"
  using p by (auto simp: resetSearch_def intro!: closed_resetSearch_start[OF c] closed_focusInput[OF c])

lemma closed_search:
  assumes c: "closed P" and p: "P s" shows "P (search it s)"
proof -
  note r = closed_dropdown[OF c] closed_set_currentIndex[OF c] closed_resetSearch_start[OF c]
    closed_getSearchResults[OF c]
  show ?thesis using p by (auto simp: search_def Let_def intro!: r)
qed

lemma closed_getSearchResults_then:
  assumes c: "closed P" and p: "P s" shows "P (getSearchResults_then t m s)"
proof -
  note r = closedD[OF c] closed_dropdown[OF c]
  show ?thesis using p
    by (auto simp: getSearchResults_then_def morphMarkup_def intro!: r split: list.splits)
qed

lemma closed_resetSearch_apply:
  assumes c: "closed P" and p: "P s" shows "P (resetSearch_apply t e s)"
proof -
  note r = closedD[OF c] closed_dropdown[OF c]
  show ?thesis using p by (auto simp: resetSearch_apply_def intro!: r)
qed

lemma closed_resetSearch_emptyMarkup:
  assumes c: "closed P" and p: "P s" and "resetSearch_emptyMarkup t m s = Inr r"
  shows "P (snd r)"
proof -
  note rs = closedD[OF c] closed_resetSearch_apply[OF c]
  show ?thesis using p assms(3)
    by (auto simp: resetSearch_emptyMarkup_def intro!: rs split: option.splits if_splits)
qed

lemma closed_resetSearch_recentMarkup:
  assumes c: "closed P" and p: "P s" shows "P (resetSearch_recentMarkup t e m s)"
  using p by (auto simp: resetSearch_recentMarkup_def intro!: closed_resetSearch_apply[OF c])

lemma closed_keyEnter:
  assumes c: "closed P" and p: "P s" shows "P (keyEnter s)"
proof -
  note r = closedD[OF c]
  have "P (keyEnterItem s)"
    using p by (auto simp: keyEnterItem_def intro!: r split: option.splits)
  then show ?thesis using p by (auto simp: keyEnter_def intro!: r split: option.splits)
qed

lemma closed_onSearchKeyDown:
  assumes c: "closed P" and p: "P s" shows "P (onSearchKeyDown key shift s)"
proof -
  note r = closedD[OF c] closed_dropdown[OF c] closed_set_currentIndex[OF c]
    closed_resetSearch_start[OF c] closed_blurInput[OF c] closed_keyEnter[OF c]
  show ?thesis using p by (auto simp: onSearchKeyDown_def Let_def intro!: r)
qed

lemma closed_connectedCallback:
  assumes c: "closed P" and p: "P s" shows "P (connectedCallback s)"
proof -
  note r = closedD[OF c] closed_dropdown[OF c]
  show ?thesis using p by (auto simp: connectedCallback_def Let_def intro!: r)
qed

lemma closed_disconnectedCallback:
  assumes c: "closed P" and p: "P s" shows "P (disconnectedCallback s)"
proof -
  note r = closedD[OF c]
  show ?thesis using p by (auto simp: disconnectedCallback_def intro!: r)
qed

lemma closed_after:
  assumes c: "closed P" and p: "P s" shows "P (ps_after e s)"
proof (cases e)
  case (EmptyResolved t m)
  show ?thesis
    using p closed_resetSearch_emptyMarkup[OF c p, of t m] EmptyResolved
    by (auto simp: ps_after_def split: sum.splits)
next
  case (Input v)
  note r = closedD[OF c] closed_dropdown[OF c] closed_handlePlaceholderInput[OF c]
  show ?thesis using p Input by (auto simp: ps_after_def Let_def intro!: r)
next
  case (PlaceholderTimer h)
  then show ?thesis using p closed_timer[OF c p, of h] by (auto simp: ps_after_def)
qed (use p in \<open>auto simp: ps_after_def getSearchResults_catch_def handleOutsideClick_def
      handleModalClick_def handleDialogClose_def
      intro!: closedD[OF c] closed_dropdown[OF c] closed_connectedCallback[OF c]
        closed_disconnectedCallback[OF c] closed_focusInput[OF c] closed_blurInput[OF c]
        closed_onSearchKeyDown[OF c] closed_search[OF c] closed_resetSearch[OF c]
        closed_getSearchResults_then[OF c] closed_resetSearch_recentMarkup[OF c]
        closed_resetSearch_start[OF c]\<close>)

lemma closed_run: "closed P \<Longrightarrow> P s \<Longrightarrow> P (ps_run es s)"
  by (induction es arbitrary: s) (simp_all add: closed_after)

subsection \<open>The predictive search: one timer at most\<close>

lemma timerOk_cases:
  "timerOk s \<longleftrightarrow>
     timers s = [] \<and> placeholderTimeout s = None \<or>
     (\<exists>h d. timers s = [(h, d)] \<and> placeholderTimeout s = Some h)"
  by (cases "placeholderTimeout s") (auto simp: timerOk_def)

lemma timerOk_stop: "timerOk s \<Longrightarrow> timerOk (stopPlaceholderAnimation s)"
  by (auto simp: stopPlaceholderAnimation_def timerOk_cases clearTimeout_def split: option.splits)

lemma timerOk_stop_empty: "timers s = [] \<Longrightarrow> timerOk (stopPlaceholderAnimation s)"
  by (auto simp: stopPlaceholderAnimation_def timerOk_cases clearTimeout_def split: option.splits)

lemma timerOk_inputPlaceholder [simp]: "timerOk (s\<lparr>inputPlaceholder := v\<rparr>) = timerOk s"
  by (simp add: timerOk_def)

lemma timerOk_pause: "timerOk s \<Longrightarrow> timerOk (pausePlaceholderAnimation s)"
  by (simp add: pausePlaceholderAnimation_def Let_def timerOk_stop)

lemma timerOk_pause_empty: "timers s = [] \<Longrightarrow> timerOk (pausePlaceholderAnimation s)"
  by (simp add: pausePlaceholderAnimation_def Let_def timerOk_stop_empty)

lemma timerOk_advance: "timers s = [] \<Longrightarrow> timerOk (advancePlaceholder s)"
  by (simp add: advancePlaceholder_def timerOk_pause_empty)
     (simp add: timerOk_cases setTimeout_def Let_def)

lemma timerOk_resume: "timerOk s \<Longrightarrow> timerOk (resumePlaceholderAnimation s)"
proof -
  assume ok: "timerOk s"
  have "placeholderTimeout s = None \<Longrightarrow> timerOk (advancePlaceholder s)"
    using ok by (intro timerOk_advance) (simp add: timerOk_cases)
  then show ?thesis
    using ok by (auto simp: resumePlaceholderAnimation_def timerOk_pause)
qed

lemma timerOk_closed: "closed timerOk"
  unfolding closed_def
proof (intro allI impI conjI)
  fix s h assume "timerOk s" "h \<in> fst ` set (timers s)"
  then have "timers (clearTimeout h s) = []"
    by (auto simp: timerOk_cases clearTimeout_def)
  then show "timerOk (advancePlaceholder (clearTimeout h s))" by (rule timerOk_advance)
next
  fix s assume ok: "timerOk s"
  have "\<And>a b c d. timerOk (s\<lparr>placeholderOriginal := a, placeholderPrefix := b,
          placeholderCategories := c, placeholderListening := d\<rparr>)"
     "\<And>a b c d. timerOk (s\<lparr>placeholderOriginal := a, placeholderPrefix := b,
          placeholderCategories := c\<rparr>)"
    using ok by (simp_all add: timerOk_def)
  then show "timerOk (setupPlaceholderAnimation s)"
    by (simp add: setupPlaceholderAnimation_def Let_def timerOk_resume)
qed (simp_all add: timerOk_stop timerOk_pause timerOk_resume,
     simp_all add: timerOk_def setDropdownState_def morph_def createAbortController_def Let_def
       resetPlaceholderAnimation_def)


lemma timerOk_length: "timerOk s \<Longrightarrow> length (timers s) \<le> 1"
  by (auto simp: timerOk_cases)

lemma timerOk_construct: "timerOk (construct pg)"
  by (simp add: timerOk_def construct_def)

subsection \<open>The predictive search: no category\<close>

lemma idle_pause: "idle pg s \<Longrightarrow> pausePlaceholderAnimation s = s"
  by (simp add: idle_def pausePlaceholderAnimation_def stopPlaceholderAnimation_def)

lemma idle_resume: "idle pg s \<Longrightarrow> resumePlaceholderAnimation s = s"
  by (simp add: resumePlaceholderAnimation_def idle_pause)
     (simp add: idle_def shouldAnimatePlaceholder_def)

lemma getPlaceholderCategories_eq:
  "categoriesData s' = categoriesData s \<Longrightarrow> categoryLinkTexts s' = categoryLinkTexts s \<Longrightarrow>
   getPlaceholderCategories s' = getPlaceholderCategories s"
  by (simp add: getPlaceholderCategories_def split: option.splits)

lemma idle_setup:
  assumes "getPlaceholderCategories pg = []" "idle pg s"
  shows "idle pg (setupPlaceholderAnimation s)"
proof -
  have "getPlaceholderCategories (s\<lparr>placeholderOriginal := a, placeholderPrefix := b\<rparr>) = []" for a b
    using assms getPlaceholderCategories_eq[of "s\<lparr>placeholderOriginal := a, placeholderPrefix := b\<rparr>" pg]
    by (simp add: idle_def)
  then show ?thesis using assms(2)
    by (simp add: setupPlaceholderAnimation_def Let_def) (simp add: idle_def)
qed

lemma idle_closed: "getPlaceholderCategories pg = [] \<Longrightarrow> closed (idle pg)"
  unfolding closed_def
proof (intro allI impI conjI)
  fix s h assume "idle pg s" "h \<in> fst ` set (timers s)"
  then show "idle pg (advancePlaceholder (clearTimeout h s))" by (simp add: idle_def)
next
  fix s assume "getPlaceholderCategories pg = []" "idle pg s"
  then show "idle pg (setupPlaceholderAnimation s)" by (rule idle_setup)
next
  fix s assume "idle pg s"
  then show "idle pg (stopPlaceholderAnimation s)"
    by (simp add: idle_def stopPlaceholderAnimation_def)
qed (simp_all add: idle_pause idle_resume,
     simp_all add: idle_def setDropdownState_def morph_def createAbortController_def Let_def
       resetPlaceholderAnimation_def)

lemma idle_connected:
  assumes "getPlaceholderCategories pg = []"
  shows "idle pg (connectedCallback (construct pg))"
proof -
  have "idle pg (setupPlaceholderAnimation s)"
    if "categoriesData s = categoriesData pg" "categoryLinkTexts s = categoryLinkTexts pg"
      "timers s = []" "timerCount s = 0" "placeholderTimeout s = None"
      "inputPlaceholder s = inputPlaceholder pg" for s
  proof -
    have "getPlaceholderCategories (s\<lparr>placeholderOriginal := a, placeholderPrefix := b\<rparr>) = []" for a b
      using assms that getPlaceholderCategories_eq[of "s\<lparr>placeholderOriginal := a, placeholderPrefix := b\<rparr>" pg]
      by simp
    then show ?thesis using that
      by (simp add: setupPlaceholderAnimation_def Let_def) (simp add: idle_def)
  qed
  then show ?thesis
    by (simp add: connectedCallback_def Let_def construct_def showResetButton_def
        setDropdownState_def openDropdown_def)
qed

subsection \<open>The predictive search: tokens\<close>

lemma tokens_placeholder [simp]:
  "tokens (stopPlaceholderAnimation s) = tokens s"
  "activeFetch (stopPlaceholderAnimation s) = activeFetch s"
  "tokens (pausePlaceholderAnimation s) = tokens s"
  "activeFetch (pausePlaceholderAnimation s) = activeFetch s"
  by (simp_all add: stopPlaceholderAnimation_def pausePlaceholderAnimation_def clearTimeout_def
      Let_def split: option.splits)

lemma tokens_advance [simp]:
  "tokens (advancePlaceholder s) = tokens s"
  "activeFetch (advancePlaceholder s) = activeFetch s"
  by (simp_all add: advancePlaceholder_def setTimeout_def Let_def)

lemma tokens_resume [simp]:
  "tokens (resumePlaceholderAnimation s) = tokens s"
  "activeFetch (resumePlaceholderAnimation s) = activeFetch s"
  by (simp_all add: resumePlaceholderAnimation_def)

lemma tokens_setup [simp]:
  "tokens (setupPlaceholderAnimation s) = tokens s"
  "activeFetch (setupPlaceholderAnimation s) = activeFetch s"
  by (simp_all add: setupPlaceholderAnimation_def Let_def)

lemma tokens_misc [simp]:
  "tokens (setDropdownState b s) = tokens s"
  "activeFetch (setDropdownState b s) = activeFetch s"
  "tokens (morph n s) = tokens s"
  "activeFetch (morph n s) = activeFetch s"
  "tokens (resetPlaceholderAnimation s) = tokens s"
  "activeFetch (resetPlaceholderAnimation s) = activeFetch s"
  "tokens (clearTimeout h s) = tokens s"
  "activeFetch (clearTimeout h s) = activeFetch s"
  by (simp_all add: setDropdownState_def morph_def resetPlaceholderAnimation_def clearTimeout_def)

lemma createAbortController_tokens:
  "tokens (snd (createAbortController s)) =
     (case activeFetch s of Some a \<Rightarrow> (tokens s)[a := True] | None \<Rightarrow> tokens s) @ [False]"
  "activeFetch (snd (createAbortController s)) = Some (length (tokens s))"
  "fst (createAbortController s) = length (tokens s)"
  by (simp_all add: createAbortController_def Let_def)

lemma createAbortController_nth:
  "a < length (tokens s) \<Longrightarrow>
   tokens (snd (createAbortController s)) ! a = (tokens s ! a \<or> activeFetch s = Some a)"
proof (cases "activeFetch s")
  case None
  assume "a < length (tokens s)"
  then show ?thesis using None by (simp add: createAbortController_tokens nth_append)
next
  case (Some b)
  assume "a < length (tokens s)"
  then show ?thesis using Some
    by (cases "a = b") (simp_all add: createAbortController_tokens nth_append)
qed

lemma createAbortController_length:
  "length (tokens (snd (createAbortController s))) = Suc (length (tokens s))"
  by (cases "activeFetch s") (simp_all add: createAbortController_tokens)

lemma issued_superseded:
  "issued a s \<Longrightarrow> superseded a (snd (createAbortController s))"
  by (simp add: issued_def superseded_def createAbortController_nth createAbortController_length)

lemma superseded_issued: "superseded a s \<Longrightarrow> issued a s"
  by (simp add: issued_def superseded_def)

lemma issued_closed: "closed (issued a)"
  unfolding closed_def
proof (intro allI impI conjI)
  fix s assume "issued a s"
  then show "issued a (snd (createAbortController s))"
    by (rule superseded_issued[OF issued_superseded])
qed (simp_all add: issued_def)

lemma superseded_closed: "closed (superseded a)"
  unfolding closed_def
proof (intro allI impI conjI)
  fix s assume "superseded a s"
  then show "superseded a (snd (createAbortController s))"
    by (rule issued_superseded[OF superseded_issued])
qed (simp_all add: superseded_def)

lemma oneLive_closed: "closed oneLive"
  unfolding closed_def
proof (intro allI impI conjI)
  fix s assume ok: "oneLive s"
  show "oneLive (snd (createAbortController s))"
    unfolding oneLive_def
  proof (intro allI impI)
    fix i assume i: "i < length (tokens (snd (createAbortController s)))"
      and live: "\<not> tokens (snd (createAbortController s)) ! i"
    have "\<not> i < length (tokens s)"
    proof
      assume lt: "i < length (tokens s)"
      with live have "\<not> tokens s ! i" "activeFetch s \<noteq> Some i"
        by (simp_all add: createAbortController_nth)
      with ok lt show False by (simp add: oneLive_def)
    qed
    with i have "i = length (tokens s)" by (simp add: createAbortController_length)
    then show "activeFetch (snd (createAbortController s)) = Some i"
      by (simp add: createAbortController_tokens)
  qed
qed (simp_all add: oneLive_def)

lemma oneLive_liveTokens: assumes "oneLive s" shows "length (liveTokens s) \<le> 1"
proof -
  have d: "distinct (liveTokens s)" by (simp add: liveTokens_def)
  have "set (liveTokens s) \<subseteq> set_option (activeFetch s)"
    using assms by (auto simp: liveTokens_def oneLive_def)
  then have "card (set (liveTokens s)) \<le> card (set_option (activeFetch s))"
    by (intro card_mono) simp_all
  also have "\<dots> \<le> 1" by (cases "activeFetch s") simp_all
  finally show ?thesis using d by (simp add: distinct_card)
qed

lemma oneLive_construct: "oneLive (construct pg)"
  by (simp add: oneLive_def construct_def)

subsection \<open>The predictive search: the typing cycle\<close>




lemma should_timers [simp]: "shouldAnimatePlaceholder (s\<lparr>timers := x\<rparr>) = shouldAnimatePlaceholder s"
  by (simp add: shouldAnimatePlaceholder_def)

lemma placeholderCategory_timers [simp]: "placeholderCategory (s\<lparr>timers := x\<rparr>) = placeholderCategory s"
  by (simp add: placeholderCategory_def)













subsection \<open>Claims on the selected result\<close>

lemma findIndex_bounds: "- 1 \<le> findIndex P xs \<and> findIndex P xs < int (length xs)"
  by (induction xs) (auto simp: Let_def)

lemma findIndex_none: "(\<And>x. x \<in> set xs \<Longrightarrow> \<not> P x) \<Longrightarrow> findIndex P xs = - 1"
  by (induction xs) (auto simp: Let_def)

lemma findIndex_at:
  "k < length xs \<Longrightarrow> P (xs ! k) \<Longrightarrow> (\<And>j. j < k \<Longrightarrow> \<not> P (xs ! j)) \<Longrightarrow> findIndex P xs = int k"
proof (induction xs arbitrary: k)
  case Nil
  then show ?case by simp
next
  case (Cons x xs)
  show ?case
  proof (cases k)
    case 0
    with Cons.prems show ?thesis by simp
  next
    case (Suc k')
    have "\<not> P x" using Cons.prems(3)[of 0] Suc by simp
    moreover have "findIndex P xs = int k'"
    proof (rule Cons.IH)
      show "k' < length xs" using Cons.prems(1) Suc by simp
      show "P (xs ! k')" using Cons.prems(2) Suc by simp
      show "\<not> P (xs ! j)" if "j < k'" for j using Cons.prems(3)[of "Suc j"] that Suc by simp
    qed
    ultimately show ?thesis using Suc by (simp add: Let_def)
  qed
qed

lemma selectLoop_other:
  "p \<notin> fst ` set its \<Longrightarrow> selectLoop kb j k its m p = m p"
  by (induction its arbitrary: k m) auto

lemma selectLoop_at:
  "distinct (map fst its) \<Longrightarrow> n < length its \<Longrightarrow>
   fst (attrsOf (selectLoop kb j k its m) (its ! n)) =
     (if int (k + n) = j then Some ''true'' else None)"
proof (induction its arbitrary: k m n)
  case Nil
  then show ?case by simp
next
  case (Cons it its)
  show ?case
  proof (cases n)
    case 0
    have "fst it \<notin> fst ` set its" using Cons.prems(1) by simp
    then show ?thesis using 0 by (simp add: selectLoop_other attrsOf_def)
  next
    case (Suc n')
    then show ?thesis using Cons.prems Cons.IH[of n' "Suc k"] by simp
  qed
qed

lemma focusInput_items [simp]:
  "marks (focusInput s) = marks s" "results (focusInput s) = results s"
  by (simp_all add: focusInput_def openDropdown_def setDropdownState_def
      pausePlaceholderAnimation_def stopPlaceholderAnimation_def clearTimeout_def Let_def
      split: option.splits)

lemma allResultsItems_eq: "results s' = results s \<Longrightarrow> allResultsItems s' = allResultsItems s"
  by (simp add: allResultsItems_def)

lemma set_currentIndex_items [simp]: "allResultsItems (set_currentIndex j s) = allResultsItems s"
  by (rule allResultsItems_eq) (simp add: set_currentIndex_def Let_def)

lemma set_currentIndex_selected:
  assumes "distinct (map fst (allResultsItems s))" "n < length (allResultsItems s)"
  shows "isSelected (set_currentIndex j s) (allResultsItems s ! n) \<longleftrightarrow> int n = j"
proof -
  have ne: "allResultsItems s \<noteq> []" using assms(2) by auto
  show ?thesis
    using selectLoop_at[OF assms, of "isKeyboardNavigation s" j 0] ne
    by (simp add: isSelected_def set_currentIndex_def Let_def)
qed

lemma get_set_currentIndex:
  assumes "distinct (map fst (allResultsItems s))" "0 \<le> j" "j < int (length (allResultsItems s))"
  shows "get_currentIndex (set_currentIndex j s) = j"
proof -
  have n: "nat j < length (allResultsItems s)" using assms(2,3) by simp
  have "findIndex (isSelected (set_currentIndex j s)) (allResultsItems s) = int (nat j)"
  proof (rule findIndex_at[OF n])
    show "isSelected (set_currentIndex j s) (allResultsItems s ! nat j)"
      using set_currentIndex_selected[OF assms(1) n, of j] assms(2) by simp
    show "\<not> isSelected (set_currentIndex j s) (allResultsItems s ! i)" if "i < nat j" for i
      using set_currentIndex_selected[OF assms(1), of i j] that n by simp
  qed
  then show ?thesis using assms(2) by (simp add: get_currentIndex_def)
qed

lemma get_currentIndex_bounds:
  "- 1 \<le> get_currentIndex s \<and> get_currentIndex s < int (length (allResultsItems s))"
  by (simp add: get_currentIndex_def findIndex_bounds)

lemma keyboard_items [simp]:
  "allResultsItems (s\<lparr>isKeyboardNavigation := b\<rparr>) = allResultsItems s"
  "get_currentIndex (s\<lparr>isKeyboardNavigation := b\<rparr>) = get_currentIndex s"
proof -
  show a: "allResultsItems (s\<lparr>isKeyboardNavigation := b\<rparr>) = allResultsItems s"
    by (simp add: allResultsItems_def)
  have "isSelected (s\<lparr>isKeyboardNavigation := b\<rparr>) = isSelected s"
    by (rule ext) (simp add: isSelected_def)
  then show "get_currentIndex (s\<lparr>isKeyboardNavigation := b\<rparr>) = get_currentIndex s"
    by (simp add: get_currentIndex_def a)
qed

lemma onSearchKeyDown_down:
  assumes "distinct (map fst (allResultsItems s))" "allResultsItems s \<noteq> []"
    "key = ''ArrowDown'' \<or> key = ''Tab'' \<and> \<not> shift"
  shows "get_currentIndex (onSearchKeyDown key shift s) =
           (get_currentIndex s + 1) mod int (length (allResultsItems s))"
proof -
  let ?n = "int (length (allResultsItems s))"
  let ?i = "get_currentIndex s"
  let ?d = "if ?i < ?n - 1 then ?i + 1 else 0"
  have pos: "0 < ?n" using assms(2) by simp
  note b = get_currentIndex_bounds[of s]
  have d: "0 \<le> ?d" "?d < ?n" using b pos by auto
  have eq: "onSearchKeyDown key shift s = set_currentIndex ?d (s\<lparr>isKeyboardNavigation := True\<rparr>)"
    using assms(2,3) by (auto simp: onSearchKeyDown_def Let_def)
  have "get_currentIndex (onSearchKeyDown key shift s) = ?d"
    unfolding eq using assms(1) d by (intro get_set_currentIndex) simp_all
  moreover have "?d = (?i + 1) mod ?n"
  proof (cases "?i < ?n - 1")
    case True
    then show ?thesis using b by (simp add: mod_pos_pos_trivial)
  next
    case False
    then have "?i = ?n - 1" using b by simp
    then show ?thesis by simp
  qed
  ultimately show ?thesis by simp
qed

lemma onSearchKeyDown_up:
  assumes "distinct (map fst (allResultsItems s))" "allResultsItems s \<noteq> []"
    "key = ''ArrowUp'' \<or> key = ''Tab'' \<and> shift"
  shows "get_currentIndex (onSearchKeyDown key shift s) =
           (if get_currentIndex s = - 1 then int (length (allResultsItems s)) - 1
            else (get_currentIndex s - 1 + int (length (allResultsItems s)))
                   mod int (length (allResultsItems s)))"
proof -
  let ?n = "int (length (allResultsItems s))"
  let ?i = "get_currentIndex s"
  let ?u = "if ?i > 0 then ?i - 1 else ?n - 1"
  have pos: "0 < ?n" using assms(2) by simp
  note b = get_currentIndex_bounds[of s]
  have u: "0 \<le> ?u" "?u < ?n" using b pos by auto
  have eq: "onSearchKeyDown key shift s = set_currentIndex ?u (s\<lparr>isKeyboardNavigation := True\<rparr>)"
    using assms(2,3) by (auto simp: onSearchKeyDown_def Let_def)
  have "get_currentIndex (onSearchKeyDown key shift s) = ?u"
    unfolding eq using assms(1) u by (intro get_set_currentIndex) simp_all
  moreover have "?u = (if ?i = - 1 then ?n - 1 else (?i - 1 + ?n) mod ?n)"
  proof (cases "?i > 0")
    case True
    then have "(?i - 1 + ?n) mod ?n = ?i - 1" using b by simp
    then show ?thesis using True by simp
  next
    case False
    then have i: "?i = 0 \<or> ?i = - 1" using b by auto
    have "(- 1) mod ?n = ?n - 1" using pos by (rule zmod_minus1)
    then show ?thesis using i by auto
  qed
  ultimately show ?thesis by simp
qed

lemma onSearchKeyDown_noItems:
  "allResultsItems s = [] \<Longrightarrow> key \<noteq> ''Escape'' \<Longrightarrow> onSearchKeyDown key shift s = s"
  by (simp add: onSearchKeyDown_def)

text \<open>
  An item below two containers is listed twice, and the later entry of the loop removes
  the selection that the earlier one set: no key selects anything.
\<close>

lemma nested_containers_select_nothing:
  "map fst (allResultsItems demo_nested) = [[0, 0, 0], [0, 0, 1], [0, 0, 0], [0, 0, 1]] \<and>
   get_currentIndex (onSearchKeyDown ''ArrowDown'' False demo_nested) = - 1"
  by code_simp

text \<open>
  C3, as stated: ArrowDown or forward Tab sets the index to 0 when the count is 0. It
  does not: with no result item the handler returns before it sets anything, and the
  index stays -1.
\<close>

theorem selection_counterexample:
  "allResultsItems (connectedCallback (construct demo_page)) = [] \<and>
   get_currentIndex (connectedCallback (construct demo_page)) = - 1 \<and>
   get_currentIndex (onSearchKeyDown ''ArrowDown'' False (connectedCallback (construct demo_page))) = - 1 \<and>
   get_currentIndex (onSearchKeyDown ''Tab'' False (connectedCallback (construct demo_page))) = - 1"
  by code_simp

text \<open>
  C3, amended: the index is always in [-1, count-1]. With at least one result item, each
  listed once, ArrowDown or forward Tab sets it to (index + 1) mod count, which is 0
  from -1, and ArrowUp or shift-Tab sets it to (index - 1 + count) mod count, and to
  count-1 from -1. With no result item these keys change nothing and the index stays -1.
\<close>

theorem selection_index:
  assumes "distinct (map fst (allResultsItems s))"
  shows "- 1 \<le> get_currentIndex s \<and> get_currentIndex s < int (length (allResultsItems s)) \<and>
         - 1 \<le> get_currentIndex (onSearchKeyDown key shift s) \<and>
         get_currentIndex (onSearchKeyDown key shift s)
           < int (length (allResultsItems (onSearchKeyDown key shift s))) \<and>
         (if allResultsItems s = []
          then onSearchKeyDown ''ArrowDown'' shift s = s \<and> onSearchKeyDown ''ArrowUp'' shift s = s \<and>
               onSearchKeyDown ''Tab'' shift s = s \<and> get_currentIndex s = - 1
          else get_currentIndex (onSearchKeyDown ''ArrowDown'' shift s) =
                 (get_currentIndex s + 1) mod int (length (allResultsItems s)) \<and>
               get_currentIndex (onSearchKeyDown ''Tab'' False s) =
                 (get_currentIndex s + 1) mod int (length (allResultsItems s)) \<and>
               get_currentIndex (onSearchKeyDown ''ArrowUp'' shift s) =
                 (if get_currentIndex s = - 1 then int (length (allResultsItems s)) - 1
                  else (get_currentIndex s - 1 + int (length (allResultsItems s)))
                         mod int (length (allResultsItems s))) \<and>
               get_currentIndex (onSearchKeyDown ''Tab'' True s) =
                 (if get_currentIndex s = - 1 then int (length (allResultsItems s)) - 1
                  else (get_currentIndex s - 1 + int (length (allResultsItems s)))
                         mod int (length (allResultsItems s))))"
proof (cases "allResultsItems s = []")
  case True
  have "get_currentIndex s = - 1"
    using get_currentIndex_bounds[of s] True by simp
  then show ?thesis
    using True get_currentIndex_bounds[of s] get_currentIndex_bounds[of "onSearchKeyDown key shift s"]
    by (simp add: onSearchKeyDown_noItems)
next
  case False
  show ?thesis
    using False get_currentIndex_bounds[of s] get_currentIndex_bounds[of "onSearchKeyDown key shift s"]
      onSearchKeyDown_down[OF assms False, of "''ArrowDown''" shift]
      onSearchKeyDown_down[OF assms False, of "''Tab''" False]
      onSearchKeyDown_up[OF assms False, of "''ArrowUp''" shift]
      onSearchKeyDown_up[OF assms False, of "''Tab''" True]
    by simp
qed

theorem selection_index_witness:
  "distinct (map fst (allResultsItems demo_shown)) \<and> length (allResultsItems demo_shown) = 4 \<and>
   get_currentIndex demo_shown = - 1 \<and>
   get_currentIndex (onSearchKeyDown ''ArrowDown'' False demo_shown) = 0 \<and>
   get_currentIndex (onSearchKeyDown ''ArrowUp'' False demo_shown) = 3 \<and>
   get_currentIndex (onSearchKeyDown ''Tab'' True demo_shown) = 3 \<and>
   get_currentIndex (onSearchKeyDown ''ArrowDown'' False
      (onSearchKeyDown ''ArrowDown'' False demo_shown)) = 1"
proof -
  have d: "distinct (map fst (allResultsItems demo_shown))" by code_simp
  have l: "length (allResultsItems demo_shown) = 4" "get_currentIndex demo_shown = - 1"
    "allResultsItems demo_shown \<noteq> []"
    by code_simp+
  have d1: "distinct (map fst (allResultsItems (onSearchKeyDown ''ArrowDown'' False demo_shown)))"
    by code_simp
  have l1: "length (allResultsItems (onSearchKeyDown ''ArrowDown'' False demo_shown)) = 4"
    "allResultsItems (onSearchKeyDown ''ArrowDown'' False demo_shown) \<noteq> []"
    by code_simp+
  have a: "get_currentIndex (onSearchKeyDown ''ArrowDown'' False demo_shown) = 0"
    using selection_index[OF d, of "''ArrowDown''" False] l by simp
  show ?thesis
    using selection_index[OF d, of "''ArrowDown''" False] selection_index[OF d, of "''ArrowDown''" True]
      selection_index[OF d1, of "''ArrowDown''" False] d l l1 a
    by simp
qed

subsection \<open>Claims on the reset of the search\<close>

lemma fold_removeKeyboardFocus_other:
  "p \<notin> fst ` set its \<Longrightarrow> fold removeKeyboardFocus its m p = m p"
  by (induction its arbitrary: m) (auto simp: removeKeyboardFocus_def)

lemma fold_removeKeyboardFocus_in:
  "p \<in> fst ` set its \<Longrightarrow> \<exists>a. fold removeKeyboardFocus its m p = Some (a, False)"
proof (induction its arbitrary: m)
  case Nil
  then show ?case by simp
next
  case (Cons it its)
  show ?case
  proof (cases "p \<in> fst ` set its")
    case True
    then show ?thesis using Cons.IH by simp
  next
    case False
    with Cons.prems have p: "p = fst it" by auto
    have "fold removeKeyboardFocus its (removeKeyboardFocus it m) p = removeKeyboardFocus it m p"
      using False by (rule fold_removeKeyboardFocus_other)
    moreover have "removeKeyboardFocus it m p = Some (fst (attrsOf m it), False)"
      using p by (simp add: removeKeyboardFocus_def)
    ultimately show ?thesis by simp
  qed
qed

lemma selectLoop_clear:
  assumes "j < int k" "\<And>p. p \<in> fst ` set its \<Longrightarrow> \<exists>a. m p = Some (a, False)"
  shows "selectLoop kb j k its m p = (if p \<in> fst ` set its then Some (None, False) else m p)"
  using assms
proof (induction its arbitrary: k m)
  case Nil
  then show ?case by simp
next
  case (Cons it its)
  let ?m = "m(fst it := Some (None, False))"
  from Cons.prems(2)[of "fst it"] obtain a where a: "m (fst it) = Some (a, False)" by auto
  have step: "selectLoop kb j k (it # its) m = selectLoop kb j (Suc k) its ?m"
    using Cons.prems(1) a by (simp add: attrsOf_def)
  have "selectLoop kb j (Suc k) its ?m p = (if p \<in> fst ` set its then Some (None, False) else ?m p)"
  proof (rule Cons.IH)
    show "j < int (Suc k)" using Cons.prems(1) by simp
    show "\<exists>a. ?m q = Some (a, False)" if "q \<in> fst ` set its" for q
      using Cons.prems(2)[of q] that by auto
  qed
  then show ?case unfolding step by auto
qed

lemma clearedMarks_eq:
  "clearedMarks s p = (if p \<in> fst ` set (allResultsItems s) then Some (None, False) else marks s p)"
proof -
  have "selectLoop (isKeyboardNavigation s) (- 1) 0 (allResultsItems s)
          (fold removeKeyboardFocus (allResultsItems s) (marks s)) p =
        (if p \<in> fst ` set (allResultsItems s) then Some (None, False)
         else fold removeKeyboardFocus (allResultsItems s) (marks s) p)"
    by (rule selectLoop_clear) (simp_all add: fold_removeKeyboardFocus_in)
  then show ?thesis
    by (simp add: clearedMarks_def fold_removeKeyboardFocus_other)
qed

lemma clearedMarks_idem:
  assumes "results s' = results s" "marks s' = clearedMarks s"
  shows "clearedMarks s' = clearedMarks s"
proof
  fix p
  have "allResultsItems s' = allResultsItems s" using assms(1) by (rule allResultsItems_eq)
  then show "clearedMarks s' p = clearedMarks s p"
    using assms(2) by (simp add: clearedMarks_eq)
qed

lemma set_currentIndex_clear:
  "set_currentIndex (- 1) s =
     (if allResultsItems s = [] then s else focusInput (s\<lparr>marks := clearedMarks s\<rparr>))"
  by (simp add: set_currentIndex_def clearedMarks_def Let_def)

lemma fixedPart_placeholder [simp]:
  "fixedPart (stopPlaceholderAnimation s) = fixedPart s"
  "fixedPart (pausePlaceholderAnimation s) = fixedPart s"
  by (simp_all add: fixedPart_def stopPlaceholderAnimation_def pausePlaceholderAnimation_def
      clearTimeout_def Let_def split: option.splits)

lemma fixedPart_focusInput [simp]: "fixedPart (focusInput s) = fixedPart s"
proof -
  have "fixedPart (openDropdown x) = fixedPart x" "fixedPart (x\<lparr>inputFocused := b\<rparr>) = fixedPart x" for x b
    by (simp_all add: fixedPart_def openDropdown_def setDropdownState_def)
  then show ?thesis by (simp add: focusInput_def Let_def)
qed

lemma fixedPart_resume [simp]:
  "fixedPart (advancePlaceholder s) = fixedPart s"
  "fixedPart (resumePlaceholderAnimation s) = fixedPart s"
proof -
  show a: "fixedPart (advancePlaceholder s) = fixedPart s"
    by (simp add: advancePlaceholder_def) (simp add: fixedPart_def setTimeout_def Let_def)
  show "fixedPart (resumePlaceholderAnimation s) = fixedPart s"
    by (simp add: resumePlaceholderAnimation_def a)
qed

lemma fixedPartD:
  assumes "fixedPart s' = fixedPart s"
  shows "results s' = results s" "marks s' = marks s" "inputValue s' = inputValue s"
    "resetHidden s' = resetHidden s" "viewedProducts s' = viewedProducts s"
    "sectionId s' = sectionId s" "reducedMotion s' = reducedMotion s"
    "placeholderCategories s' = placeholderCategories s"
    "placeholderPrefix s' = placeholderPrefix s" "placeholderOriginal s' = placeholderOriginal s"
  using assms by (simp_all add: fixedPart_def)

lemma focusInput_focused [simp]: "inputFocused (focusInput s)"
proof -
  have "inputFocused (pausePlaceholderAnimation x) = inputFocused x" for x
    by (simp add: pausePlaceholderAnimation_def stopPlaceholderAnimation_def clearTimeout_def
        Let_def split: option.splits)
  then show ?thesis by (simp add: focusInput_def Let_def openDropdown_def setDropdownState_def)
qed

lemma focusInput_id: "inputFocused s \<Longrightarrow> focusInput s = s"
  by (simp add: focusInput_def)

lemmas focusInput_fixed [simp] = fixedPartD[OF fixedPart_focusInput]

lemmas resume_fixed [simp] = fixedPartD[OF fixedPart_resume(2)]

lemma resume_focused [simp]: "inputFocused (resumePlaceholderAnimation s) = inputFocused s"
proof -
  have p: "inputFocused (pausePlaceholderAnimation x) = inputFocused x" for x
    by (simp add: pausePlaceholderAnimation_def stopPlaceholderAnimation_def clearTimeout_def
        Let_def split: option.splits)
  have "inputFocused (advancePlaceholder x) = inputFocused x" for x
    by (simp add: advancePlaceholder_def p) (simp add: setTimeout_def Let_def)
  then show ?thesis by (simp add: resumePlaceholderAnimation_def p)
qed

lemma clearedMarks_focusInput [simp]: "clearedMarks (focusInput s) = clearedMarks s"
  by (rule ext) (simp add: clearedMarks_eq allResultsItems_eq[of "focusInput s" s])

lemma allResultsItems_focusInput [simp]: "allResultsItems (focusInput s) = allResultsItems s"
  by (rule allResultsItems_eq) simp

lemma resetSearch_fields:
  "results (snd (resetSearch kf s)) = results s"
  "viewedProducts (snd (resetSearch kf s)) = viewedProducts s"
  "sectionId (snd (resetSearch kf s)) = sectionId s"
  "reducedMotion (snd (resetSearch kf s)) = reducedMotion s"
  "inputValue (snd (resetSearch kf s)) = []"
  "resetHidden (snd (resetSearch kf s))"
  "marks (snd (resetSearch kf s)) = (if allResultsItems s = [] then marks s else clearedMarks s)"
  "inputFocused (snd (resetSearch kf s)) = (inputFocused s \<or> kf \<or> allResultsItems s \<noteq> [])"
  by (simp_all add: resetSearch_def resetSearch_start_def set_currentIndex_clear
      hideResetButton_def createAbortController_def Let_def focusInput_id)

lemma placeholderState_upd [simp]:
  "placeholderState (s\<lparr>marks := a\<rparr>) = placeholderState s"
  "placeholderState (s\<lparr>inputValue := b\<rparr>) = placeholderState s"
  "placeholderState (s\<lparr>resetHidden := c\<rparr>) = placeholderState s"
  "placeholderState (s\<lparr>requests := d\<rparr>) = placeholderState s"
  "placeholderState (s\<lparr>tokens := e, activeFetch := f\<rparr>) = placeholderState s"
  "placeholderState (morph n s) = placeholderState s"
  "placeholderState (syncDropdownState s) = placeholderState s"
  by (simp_all add: placeholderState_def morph_def syncDropdownState_def setDropdownState_def)

lemma resetSearch_placeholder:
  assumes "kf \<or> allResultsItems s \<noteq> [] \<Longrightarrow> inputFocused s"
  shows "placeholderState (snd (resetSearch kf s)) = placeholderState s"
  using assms
  by (auto simp: resetSearch_def resetSearch_start_def set_currentIndex_clear
      hideResetButton_def createAbortController_def Let_def focusInput_id)

lemma aborted_requests [simp]: "aborted (s\<lparr>requests := rq\<rparr>) t = aborted s t"
  by (simp add: aborted_def)

lemma resetSearch_fresh: "\<not> aborted (snd (resetSearch kf s)) (fst (resetSearch kf s))"
  by (simp add: resetSearch_def resetSearch_start_def createAbortController_def Let_def
      aborted_def nth_append split: option.splits)

lemma applyEmpty_fields:
  "results (applyEmpty e s) = e"
  "marks (applyEmpty e s) = (\<lambda>p. None)"
  "inputValue (applyEmpty e s) = inputValue s"
  "resetHidden (applyEmpty e s) = resetHidden s"
  "viewedProducts (applyEmpty e s) = viewedProducts s"
  "sectionId (applyEmpty e s) = sectionId s"
  "reducedMotion (applyEmpty e s) = reducedMotion s"
  "inputFocused (applyEmpty e s) = inputFocused s"
  by (simp_all add: applyEmpty_def)
     (simp_all add: resetPlaceholderAnimation_def syncDropdownState_def setDropdownState_def
       morph_def)

lemma pausedState_idem: "pausedState r (pausedState r p) = pausedState r p"
  by (auto simp: pausedState_def split: prod.splits)

lemma applyEmpty_placeholder:
  assumes "inputFocused s" "inputValue s = []"
  shows "placeholderState (applyEmpty e s) = pausedState (reducedMotion s) (placeholderState s)"
proof -
  let ?x = "resetPlaceholderAnimation (syncDropdownState (morph e s))"
  have x: "inputFocused ?x" "inputValue ?x = []" "reducedMotion ?x = reducedMotion s"
    "placeholderState ?x =
       (placeholderTimeout s, timers s, 0, 0, False, placeholderCategories s,
        placeholderPrefix s, placeholderOriginal s, inputPlaceholder s)"
    using assms
    by (simp_all add: resetPlaceholderAnimation_def syncDropdownState_def setDropdownState_def
        morph_def placeholderState_def)
  have "placeholderState (resumePlaceholderAnimation y) =
          pausedState (reducedMotion y) (placeholderState y)"
    if "inputFocused y" "inputValue y = []" "placeholderIndex y = 0" "placeholderCharIndex y = 0"
      "\<not> placeholderIsDeleting y" for y
    using that
    by (simp add: resumePlaceholderAnimation_def shouldAnimatePlaceholder_def
        pausePlaceholderAnimation_def stopPlaceholderAnimation_def clearTimeout_def Let_def
        placeholderState_def pausedState_def split: option.splits)
  from this[of ?x] x show ?thesis
    by (simp add: applyEmpty_def)
       (simp add: placeholderState_def pausedState_def resetPlaceholderAnimation_def
         syncDropdownState_def setDropdownState_def morph_def)
qed

lemma resetOutcome_eq:
  "viewedProducts s' = viewedProducts s \<Longrightarrow> sectionId s' = sectionId s \<Longrightarrow>
   resetOutcome s' m1 m2 = resetOutcome s m1 m2"
  by (simp add: resetOutcome_def split: option.splits)

lemma resetSearch_run_cases:
  obtains (skipped) rq where "resetOutcome s m1 m2 = None"
      "resetSearch_run kf m1 m2 s = (snd (resetSearch kf s))\<lparr>requests := rq\<rparr>"
  | (applied) e rq where "resetOutcome s m1 m2 = Some e"
      "resetSearch_run kf m1 m2 s = applyEmpty e ((snd (resetSearch kf s))\<lparr>requests := rq\<rparr>)"
proof -
  let ?r = "resetSearch kf s"
  have same: "(snd ?r)\<lparr>requests := requests (snd ?r)\<rparr> = snd ?r" by simp
  have fresh: "\<not> aborted (snd ?r) (fst ?r)" by (rule resetSearch_fresh)
  show thesis
  proof (cases "documentQuery (hasClass ''predictive-search-empty-section'') m1")
    case None
    then have "resetOutcome s m1 m2 = None" by (simp add: resetOutcome_def)
    moreover have "resetSearch_run kf m1 m2 s = (snd ?r)\<lparr>requests := requests (snd ?r)\<rparr>"
      using None by (simp add: resetSearch_run_def resetSearch_emptyMarkup_def Let_def)
    ultimately show thesis by (rule skipped)
  next
    case (Some e)
    show thesis
    proof (cases "viewedProducts s = []")
      case True
      then have "resetOutcome s m1 m2 = Some e" using Some by (simp add: resetOutcome_def)
      moreover have "resetSearch_run kf m1 m2 s =
          applyEmpty e ((snd ?r)\<lparr>requests := requests (snd ?r)\<rparr>)"
        using Some True fresh
        by (simp add: resetSearch_run_def resetSearch_emptyMarkup_def Let_def
            resetSearch_fields resetSearch_apply_def applyEmpty_def)
      ultimately show thesis by (rule applied)
    next
      case False
      show thesis
      proof (cases "sectionId s = []")
        case True
        then have "resetOutcome s m1 m2 = None" using Some False by (simp add: resetOutcome_def)
        moreover have "resetSearch_run kf m1 m2 s = (snd ?r)\<lparr>requests := requests (snd ?r)\<rparr>"
          using Some False True
          by (simp add: resetSearch_run_def resetSearch_emptyMarkup_def Let_def resetSearch_fields)
        ultimately show thesis by (rule skipped)
      next
        case sid: False
        let ?rq = "requests (snd ?r) @ [RecentlyViewedQuery (sectionId (snd ?r)) (recentlyViewedQuery (snd ?r))]"
        have run: "resetSearch_run kf m1 m2 s =
            resetSearch_recentMarkup (fst ?r) e m2 ((snd ?r)\<lparr>requests := ?rq\<rparr>)"
          using Some False sid
          by (simp add: resetSearch_run_def resetSearch_emptyMarkup_def Let_def resetSearch_fields)
        show thesis
        proof (cases "m2 = []")
          case True
          then have "resetOutcome s m1 m2 = None" using Some False by (simp add: resetOutcome_def)
          moreover have "resetSearch_run kf m1 m2 s = (snd ?r)\<lparr>requests := ?rq\<rparr>"
            using True run by (simp add: resetSearch_recentMarkup_def)
          ultimately show thesis by (rule skipped)
        next
          case m2: False
          then have "resetOutcome s m1 m2 = Some (mergeRecentlyViewed e m2)"
            using Some False sid by (simp add: resetOutcome_def)
          moreover have "resetSearch_run kf m1 m2 s =
              applyEmpty (mergeRecentlyViewed e m2) ((snd ?r)\<lparr>requests := ?rq\<rparr>)"
            using m2 run fresh
            by (simp add: resetSearch_recentMarkup_def resetSearch_apply_def applyEmpty_def)
          ultimately show thesis by (rule applied)
        qed
      qed
    qed
  qed
qed

lemma get_currentIndex_eq:
  assumes "results s' = results s" "marks s' = marks s"
  shows "get_currentIndex s' = get_currentIndex s"
proof -
  have "isSelected s' = isSelected s" using assms(2) by (intro ext) (simp add: isSelected_def)
  then show ?thesis
    using allResultsItems_eq[OF assms(1)] by (simp add: get_currentIndex_def)
qed

lemma reset_twice_skipped:
  assumes "resetOutcome s m1 m2 = None"
  shows "results (resetSearch_run kf m1 m2 (resetSearch_run kf m1 m2 s)) =
           results (resetSearch_run kf m1 m2 s) \<and>
         marks (resetSearch_run kf m1 m2 (resetSearch_run kf m1 m2 s)) =
           marks (resetSearch_run kf m1 m2 s) \<and>
         inputValue (resetSearch_run kf m1 m2 (resetSearch_run kf m1 m2 s)) = [] \<and>
         inputValue (resetSearch_run kf m1 m2 s) = [] \<and>
         resetHidden (resetSearch_run kf m1 m2 (resetSearch_run kf m1 m2 s)) \<and>
         resetHidden (resetSearch_run kf m1 m2 s) \<and>
         placeholderState (resetSearch_run kf m1 m2 (resetSearch_run kf m1 m2 s)) =
           placeholderState (resetSearch_run kf m1 m2 s)"
proof -
  let ?s1 = "resetSearch_run kf m1 m2 s"
  obtain rq where s1: "?s1 = (snd (resetSearch kf s))\<lparr>requests := rq\<rparr>"
  proof (cases rule: resetSearch_run_cases[of s m1 m2 kf])
    case (skipped rq)
    show ?thesis by (rule that[OF skipped(2)])
  next
    case (applied e rq)
    with assms show ?thesis by simp
  qed
  have f1: "results ?s1 = results s" "viewedProducts ?s1 = viewedProducts s"
    "sectionId ?s1 = sectionId s" "inputValue ?s1 = []" "resetHidden ?s1"
    "marks ?s1 = (if allResultsItems s = [] then marks s else clearedMarks s)"
    "inputFocused ?s1 = (inputFocused s \<or> kf \<or> allResultsItems s \<noteq> [])"
    unfolding s1 by (simp_all add: resetSearch_fields)
  have "resetOutcome ?s1 m1 m2 = None"
    using assms resetOutcome_eq[OF f1(2,3)] by simp
  then obtain rq' where s2: "resetSearch_run kf m1 m2 ?s1 = (snd (resetSearch kf ?s1))\<lparr>requests := rq'\<rparr>"
  proof (cases rule: resetSearch_run_cases[of ?s1 m1 m2 kf])
    case (skipped rq)
    show ?thesis by (rule that[OF skipped(2)])
  next
    case (applied e rq)
    assume "resetOutcome ?s1 m1 m2 = None"
    with applied(1) show ?thesis by simp
  qed
  have items: "allResultsItems ?s1 = allResultsItems s" by (rule allResultsItems_eq[OF f1(1)])
  have m: "marks (resetSearch_run kf m1 m2 ?s1) = marks ?s1"
  proof (cases "allResultsItems s = []")
    case True
    then show ?thesis unfolding s2 by (simp add: resetSearch_fields items)
  next
    case False
    then have "clearedMarks ?s1 = clearedMarks s"
      using f1 by (intro clearedMarks_idem) simp_all
    then show ?thesis using False f1 unfolding s2 by (simp add: resetSearch_fields items)
  qed
  have "placeholderState (snd (resetSearch kf ?s1)) = placeholderState ?s1"
    by (rule resetSearch_placeholder) (use f1(7) items in auto)
  then have p: "placeholderState (resetSearch_run kf m1 m2 ?s1) = placeholderState ?s1"
    unfolding s2 by simp
  show ?thesis
    using m p f1 by (simp add: s2 resetSearch_fields)
qed

lemma reset_twice_applied:
  assumes "resetOutcome s m1 m2 = Some e"
  shows "results (resetSearch_run kf m1 m2 (resetSearch_run kf m1 m2 s)) =
           results (resetSearch_run kf m1 m2 s) \<and>
         marks (resetSearch_run kf m1 m2 (resetSearch_run kf m1 m2 s)) =
           marks (resetSearch_run kf m1 m2 s) \<and>
         inputValue (resetSearch_run kf m1 m2 (resetSearch_run kf m1 m2 s)) = [] \<and>
         inputValue (resetSearch_run kf m1 m2 s) = [] \<and>
         resetHidden (resetSearch_run kf m1 m2 (resetSearch_run kf m1 m2 s)) \<and>
         resetHidden (resetSearch_run kf m1 m2 s) \<and>
         (kf \<or> inputFocused (resetSearch_run kf m1 m2 s) \<longrightarrow>
          placeholderState (resetSearch_run kf m1 m2 (resetSearch_run kf m1 m2 s)) =
            placeholderState (resetSearch_run kf m1 m2 s))"
proof -
  let ?s1 = "resetSearch_run kf m1 m2 s"
  let ?s2 = "resetSearch_run kf m1 m2 ?s1"
  obtain rq where s1: "?s1 = applyEmpty e ((snd (resetSearch kf s))\<lparr>requests := rq\<rparr>)"
  proof (cases rule: resetSearch_run_cases[of s m1 m2 kf])
    case (skipped rq)
    with assms show ?thesis by simp
  next
    case (applied e' rq)
    with assms have "e' = e" by simp
    then show ?thesis using that[of rq] applied(2) by simp
  qed
  let ?x1 = "(snd (resetSearch kf s))\<lparr>requests := rq\<rparr>"
  have x1: "inputValue ?x1 = []" "resetHidden ?x1" "viewedProducts ?x1 = viewedProducts s"
    "sectionId ?x1 = sectionId s"
    "inputFocused ?x1 = (inputFocused s \<or> kf \<or> allResultsItems s \<noteq> [])"
    by (simp_all add: resetSearch_fields)
  have f1: "results ?s1 = e" "marks ?s1 = (\<lambda>p. None)" "inputValue ?s1 = []" "resetHidden ?s1"
    "viewedProducts ?s1 = viewedProducts s" "sectionId ?s1 = sectionId s"
    "inputFocused ?s1 = inputFocused ?x1" "reducedMotion ?s1 = reducedMotion ?x1"
    unfolding s1 using x1 by (simp_all add: applyEmpty_fields)
  have "resetOutcome ?s1 m1 m2 = Some e"
    using assms resetOutcome_eq[OF f1(5,6)] by simp
  then have o2: "resetOutcome ?s1 m1 m2 = Some e" .
  obtain rq' where s2: "?s2 = applyEmpty e ((snd (resetSearch kf ?s1))\<lparr>requests := rq'\<rparr>)"
  proof (cases rule: resetSearch_run_cases[of ?s1 m1 m2 kf])
    case (skipped rq)
    with o2 show ?thesis by simp
  next
    case (applied e' rq)
    with o2 have "e' = e" by simp
    then show ?thesis using that[of rq] applied(2) by simp
  qed
  let ?x2 = "(snd (resetSearch kf ?s1))\<lparr>requests := rq'\<rparr>"
  have x2: "inputValue ?x2 = []" "resetHidden ?x2" "reducedMotion ?x2 = reducedMotion ?s1"
    by (simp_all add: resetSearch_fields)
  have f2: "results ?s2 = e" "marks ?s2 = (\<lambda>p. None)" "inputValue ?s2 = []" "resetHidden ?s2"
    unfolding s2 using x2 by (simp_all add: applyEmpty_fields)
  have p: "placeholderState ?s2 = placeholderState ?s1" if foc: "kf \<or> inputFocused ?s1"
  proof -
    have foc1: "inputFocused ?x1" using foc f1(7) x1(5) by auto
    then have foc1': "inputFocused ?s1" using f1(7) by simp
    have p1: "placeholderState ?s1 = pausedState (reducedMotion ?x1) (placeholderState ?x1)"
      unfolding s1 by (rule applyEmpty_placeholder[OF foc1 x1(1)])
    have "placeholderState (snd (resetSearch kf ?s1)) = placeholderState ?s1"
      by (rule resetSearch_placeholder) (rule foc1')
    then have px2: "placeholderState ?x2 = placeholderState ?s1" by simp
    have foc2: "inputFocused ?x2" using foc1' by (simp add: resetSearch_fields)
    have "placeholderState ?s2 = pausedState (reducedMotion ?x2) (placeholderState ?x2)"
      unfolding s2 by (rule applyEmpty_placeholder[OF foc2 x2(1)])
    also have "\<dots> = pausedState (reducedMotion ?x1) (placeholderState ?s1)"
      using px2 x2(3) f1(8) by simp
    also have "\<dots> = placeholderState ?s1"
      unfolding p1 by (rule pausedState_idem)
    finally show ?thesis .
  qed
  show ?thesis using f1 f2 p by simp
qed

text \<open>
  C9, as stated: a second call of the reset leaves, among others, the placeholder state
  as the first call left it. It does not when the input is not focused. On the page
  loaded with a term in the input, the first \<^verbatim>\<open>resetSearch(false)\<close> empties the
  input and starts the animation, which types the first character; the second puts the
  character index back to 0 under the pending timer. And on the page whose placeholder
  animates, once the empty state shows a product card, the second call focuses the input
  as it clears the selection, which pauses the animation: no timer, and the placeholder
  of the page.
\<close>

theorem reset_twice_counterexample:
  "placeholderState (resetSearch_run False [demo_plain] [] demo_prefilled) =
     (Some 1, [(1, 85)], 0, 1, False, [''shoes'', ''bags''], ''Search for'', ''Search'', ''Search for s'') \<and>
   placeholderState (resetSearch_run False [demo_plain] []
      (resetSearch_run False [demo_plain] [] demo_prefilled)) =
     (Some 1, [(1, 85)], 0, 0, False, [''shoes'', ''bags''], ''Search for'', ''Search'', ''Search for s'') \<and>
   placeholderState (resetSearch_run False [demo_empty] [] (connectedCallback (construct demo_page))) =
     (Some 1, [(1, 85)], 0, 0, False, [''shoes'', ''bags''], ''Search for'', ''Search'', ''Search for s'') \<and>
   placeholderState (resetSearch_run False [demo_empty] []
      (resetSearch_run False [demo_empty] [] (connectedCallback (construct demo_page)))) =
     (None, [], 0, 0, False, [''shoes'', ''bags''], ''Search for'', ''Search'', ''Search'') \<and>
   \<not> inputFocused (resetSearch_run False [demo_empty] [] (connectedCallback (construct demo_page))) \<and>
   inputFocused (resetSearch_run False [demo_empty] []
      (resetSearch_run False [demo_empty] [] (connectedCallback (construct demo_page))))"
  by code_simp

text \<open>
  C9, amended: with the same responses and nothing happening in between, a second call of
  the reset leaves the results element with its marks, the selected index, the search
  term and the reset button as the first call left them; and the placeholder state too
  when the input is focused after the first call, as it is with the default
  \<^verbatim>\<open>keepFocus = true\<close>.
\<close>

theorem reset_twice:
  "results (resetSearch_run kf m1 m2 (resetSearch_run kf m1 m2 s)) =
     results (resetSearch_run kf m1 m2 s) \<and>
   marks (resetSearch_run kf m1 m2 (resetSearch_run kf m1 m2 s)) =
     marks (resetSearch_run kf m1 m2 s) \<and>
   get_currentIndex (resetSearch_run kf m1 m2 (resetSearch_run kf m1 m2 s)) =
     get_currentIndex (resetSearch_run kf m1 m2 s) \<and>
   inputValue (resetSearch_run kf m1 m2 (resetSearch_run kf m1 m2 s)) =
     inputValue (resetSearch_run kf m1 m2 s) \<and>
   resetHidden (resetSearch_run kf m1 m2 (resetSearch_run kf m1 m2 s)) =
     resetHidden (resetSearch_run kf m1 m2 s) \<and>
   (kf \<or> inputFocused (resetSearch_run kf m1 m2 s) \<longrightarrow>
    placeholderState (resetSearch_run kf m1 m2 (resetSearch_run kf m1 m2 s)) =
      placeholderState (resetSearch_run kf m1 m2 s))"
proof (cases "resetOutcome s m1 m2")
  case None
  note r = reset_twice_skipped[OF None, of kf]
  have "get_currentIndex (resetSearch_run kf m1 m2 (resetSearch_run kf m1 m2 s)) =
     get_currentIndex (resetSearch_run kf m1 m2 s)"
    using r by (intro get_currentIndex_eq) simp_all
  then show ?thesis using r by simp
next
  case (Some e)
  note r = reset_twice_applied[OF Some, of kf]
  have "get_currentIndex (resetSearch_run kf m1 m2 (resetSearch_run kf m1 m2 s)) =
     get_currentIndex (resetSearch_run kf m1 m2 s)"
    using r by (intro get_currentIndex_eq) simp_all
  then show ?thesis using r by simp
qed

theorem reset_twice_witness:
  "results (resetSearch_run True [demo_empty] [] (connectedCallback (construct demo_page))) = demo_empty \<and>
   results (resetSearch_run True [demo_empty] []
      (resetSearch_run True [demo_empty] [] (connectedCallback (construct demo_page)))) = demo_empty \<and>
   placeholderState (resetSearch_run True [demo_empty] [] (connectedCallback (construct demo_page))) =
     (None, [], 0, 0, False, [''shoes'', ''bags''], ''Search for'', ''Search'', ''Search'') \<and>
   placeholderState (resetSearch_run True [demo_empty] []
      (resetSearch_run True [demo_empty] [] (connectedCallback (construct demo_page)))) =
     (None, [], 0, 0, False, [''shoes'', ''bags''], ''Search for'', ''Search'', ''Search'')"
proof -
  have a: "results (resetSearch_run True [demo_empty] [] (connectedCallback (construct demo_page))) = demo_empty"
    by code_simp
  have b: "placeholderState (resetSearch_run True [demo_empty] [] (connectedCallback (construct demo_page))) =
     (None, [], 0, 0, False, [''shoes'', ''bags''], ''Search for'', ''Search'', ''Search'')"
    by code_simp
  show ?thesis
    using reset_twice[of True "[demo_empty]" "[]" "connectedCallback (construct demo_page)"] a b
    by simp
qed

subsection \<open>Claims on the cancellation tokens\<close>

lemma liveTokens_createAbortController:
  assumes "oneLive s"
  shows "liveTokens (snd (createAbortController s)) = [fst (createAbortController s)]"
proof -
  let ?s' = "snd (createAbortController s)"
  let ?n = "length (tokens s)"
  have a: "tokens ?s' ! i" if "i < ?n" for i
    using assms that by (auto simp: createAbortController_nth oneLive_def)
  have "filter (\<lambda>i. \<not> tokens ?s' ! i) [0..<?n] = []"
    using a by (simp add: filter_empty_conv)
  moreover have "\<not> tokens ?s' ! ?n"
    by (cases "activeFetch s") (simp_all add: createAbortController_tokens nth_append)
  ultimately show ?thesis
    by (simp add: liveTokens_def createAbortController_length createAbortController_tokens(3))
qed



lemma getSearchResults_Some:
  assumes "getSearchResults term s = (Some a, s')"
  shows "a = fst (createAbortController s)"
    "tokens s' = tokens (snd (createAbortController s))"
    "activeFetch s' = activeFetch (snd (createAbortController s))"
  using assms by (auto simp: getSearchResults_def Let_def split: if_splits)

lemma getSearchResults_issued:
  assumes "getSearchResults term s = (Some a, s')" shows "issued a s'"
  using getSearchResults_Some[OF assms]
  by (simp add: issued_def createAbortController_tokens(2,3) createAbortController_length)

lemma getSearchResults_superseded:
  assumes "getSearchResults term s = (Some b, s')" "issued a s" shows "superseded a s'"
  using getSearchResults_Some[OF assms(1)] issued_superseded[OF assms(2)]
  by (simp add: superseded_def)

lemma superseded_aborted: "superseded a s \<Longrightarrow> aborted s a"
  by (simp add: superseded_def aborted_def)

text \<open>
  C1: once a query B has acquired its token after a query A, the continuation of A finds
  its token aborted and does nothing, whatever happened between the two queries and
  whatever happens after B, the arrival of B's own response included: the results element
  stays as it is. A failure of A's request is absorbed in the same way.
\<close>

theorem last_request_wins:
  assumes "getSearchResults termA s = (Some a, sA)"
    and "getSearchResults termB (ps_run es1 sA) = (Some b, sB)"
  shows "getSearchResults_then a m (ps_run es2 sB) = ps_run es2 sB \<and>
         ps_step (QueryResolved a m) (ps_run es2 sB) = Inr (ps_run es2 sB) \<and>
         results (ps_after (QueryResolved a m) (ps_run es2 sB)) = results (ps_run es2 sB) \<and>
         ps_step (QueryRejected a msg) (ps_run es2 sB) = Inr (ps_run es2 sB)"
proof -
  have "issued a (ps_run es1 sA)"
    by (rule closed_run[OF issued_closed getSearchResults_issued[OF assms(1)]])
  then have "superseded a sB" by (rule getSearchResults_superseded[OF assms(2)])
  then have "superseded a (ps_run es2 sB)" by (rule closed_run[OF superseded_closed])
  then have "aborted (ps_run es2 sB) a" by (rule superseded_aborted)
  then show ?thesis
    by (simp add: getSearchResults_then_def getSearchResults_catch_def ps_after_def)
qed

theorem last_request_wins_witness:
  "fst demo_queryA = Some 0 \<and> fst demo_queryB = Some 1 \<and>
   results (ps_run [QueryResolved 1 [demo_results]] (snd demo_queryB)) = demo_results \<and>
   results (ps_after (QueryResolved 0 [demo_empty])
              (ps_run [QueryResolved 1 [demo_results]] (snd demo_queryB))) = demo_results"
proof -
  have a: "fst demo_queryA = Some 0" by code_simp
  have b: "fst demo_queryB = Some 1" by code_simp
  have r: "results (ps_run [QueryResolved 1 [demo_results]] (snd demo_queryB)) = demo_results"
    by code_simp
  have "getSearchResults ''re'' (connectedCallback (construct demo_page)) = (Some 0, snd demo_queryA)"
    using a by (simp add: demo_queryA_def prod_eq_iff)
  moreover have "getSearchResults ''red'' (ps_run [] (snd demo_queryA)) = (Some 1, snd demo_queryB)"
    using b by (simp add: demo_queryB_def prod_eq_iff)
  ultimately show ?thesis
    using last_request_wins[of "''re''" "connectedCallback (construct demo_page)" 0
        "snd demo_queryA" "''red''" "[]" 1 "snd demo_queryB" "[demo_empty]"
        "[QueryResolved 1 [demo_results]]"] a b r
    by simp
qed

text \<open>
  C2: at every point of the life of a component at most one of its tokens is not
  aborted, and after a token is acquired the only one not aborted is the new one.
\<close>

theorem one_live_token:
  "length (liveTokens (ps_run es (construct pg))) \<le> 1 \<and>
   liveTokens (snd (createAbortController (ps_run es (construct pg)))) =
     [fst (createAbortController (ps_run es (construct pg)))]"
proof -
  have "oneLive (ps_run es (construct pg))"
    by (rule closed_run[OF oneLive_closed oneLive_construct])
  then show ?thesis
    using oneLive_liveTokens[of "ps_run es (construct pg)"]
      liveTokens_createAbortController[of "ps_run es (construct pg)"]
    by simp
qed

theorem one_live_token_witness:
  "liveTokens (ps_run [Connect, Input ''re'', SearchFire (Some ''insertText''), Input ''red'',
      SearchFire (Some ''insertText'')] (construct demo_page)) = [1] \<and>
   liveTokens (snd (createAbortController (ps_run [Connect, Input ''re'',
      SearchFire (Some ''insertText''), Input ''red'', SearchFire (Some ''insertText'')]
      (construct demo_page)))) = [2]"
proof -
  have "fst (createAbortController (ps_run [Connect, Input ''re'',
      SearchFire (Some ''insertText''), Input ''red'', SearchFire (Some ''insertText'')]
      (construct demo_page))) = 2"
    by code_simp
  moreover have "liveTokens (ps_run [Connect, Input ''re'', SearchFire (Some ''insertText''),
      Input ''red'', SearchFire (Some ''insertText'')] (construct demo_page)) = [1]"
    by code_simp
  ultimately show ?thesis
    using one_live_token[of "[Connect, Input ''re'', SearchFire (Some ''insertText''),
      Input ''red'', SearchFire (Some ''insertText'')]" demo_page]
    by simp
qed

subsection \<open>Claims on the typing cycle\<close>






subsection \<open>Claims on missing markup\<close>

text \<open>
  C6, as stated: a response without the expected fragment raises an explicit error on
  the query path and on the reset path. On the query path it does not: for a query in
  flight whose token is not aborted, empty results markup is dropped without an error
  and nothing is rendered.
\<close>

theorem empty_results_markup_counterexample:
  "ps_step (QueryResolved 0 []) (snd demo_queryA) = Inr (snd demo_queryA) \<and>
   \<not> aborted (snd demo_queryA) 0"
proof -
  have "0 < length (tokens (snd demo_queryA))" by code_simp
  moreover have "\<not> aborted (snd demo_queryA) 0" by code_simp
  ultimately show ?thesis by (simp add: getSearchResults_then_def)
qed

text \<open>
  C6, amended: on the reset path, a response of the empty state without the element of
  the empty section raises the error "No empty section markup found"; on the query path,
  empty results markup is ignored: no error, nothing rendered, the state as it was; and
  so is empty markup of the recently viewed products on the reset path.
\<close>

theorem missing_empty_section:
  assumes "documentQuery (hasClass ''predictive-search-empty-section'') m = None"
  shows "resetSearch_emptyMarkup t m s = Inl NoEmptySectionMarkup \<and>
         (if t < length (tokens s) then ps_step (EmptyResolved t m) s = Inl NoEmptySectionMarkup
          else ps_step (EmptyResolved t m) s = Inr s) \<and>
         getSearchResults_then t [] s = s \<and>
         ps_step (QueryResolved t []) s = Inr s \<and>
         ps_step (RecentResolved t e []) s = Inr s"
  using assms
  by (simp add: resetSearch_emptyMarkup_def getSearchResults_then_def resetSearch_recentMarkup_def)

theorem missing_empty_section_witness:
  "documentQuery (hasClass ''predictive-search-empty-section'') [demo_results] = None \<and>
   ps_step (EmptyResolved 0 [demo_results]) (snd demo_queryA) = Inl NoEmptySectionMarkup \<and>
   ps_step (EmptyResolved 0 []) (snd demo_queryA) = Inl NoEmptySectionMarkup"
proof -
  have a: "documentQuery (hasClass ''predictive-search-empty-section'') [demo_results] = None"
    by code_simp
  have b: "documentQuery (hasClass ''predictive-search-empty-section'') [] = None"
    by code_simp
  have c: "0 < length (tokens (snd demo_queryA))" by code_simp
  show ?thesis
    using missing_empty_section[OF a, of 0 "snd demo_queryA"]
      missing_empty_section[OF b, of 0 "snd demo_queryA"] a c
    by simp
qed

subsection \<open>Claims on the debounced search\<close>

text \<open>
  C10: for an input event whose \<^verbatim>\<open>inputType\<close> is absent or empty the debounced
  search handler returns at once: no query is dispatched, the reset does not run, the
  selected index and the reset button stay, whatever the input holds.
\<close>

theorem search_without_inputType:
  assumes "falsy inputType"
  shows "search inputType s = s \<and> ps_step (SearchFire inputType) s = Inr s \<and>
         requests (search inputType s) = requests s \<and>
         tokens (search inputType s) = tokens s \<and>
         get_currentIndex (search inputType s) = get_currentIndex s \<and>
         resetHidden (search inputType s) = resetHidden s"
  using assms by (simp add: search_def)

theorem search_without_inputType_witness:
  "falsy None \<and> falsy (Some []) \<and> trim (inputValue (demo_page\<lparr>inputValue := ''red''\<rparr>)) = ''red'' \<and>
   search None (demo_page\<lparr>inputValue := ''red''\<rparr>) = demo_page\<lparr>inputValue := ''red''\<rparr> \<and>
   search (Some []) (demo_page\<lparr>inputValue := ''red''\<rparr>) = demo_page\<lparr>inputValue := ''red''\<rparr> \<and>
   requests (search (Some ''insertText'') (demo_page\<lparr>inputValue := ''red''\<rparr>)) =
     [PredictiveQuery ''predictive-search'' ''red'']"
proof -
  have a: "falsy None" "falsy (Some [])" by (simp_all add: falsy_def)
  have t: "trim (inputValue (demo_page\<lparr>inputValue := ''red''\<rparr>)) = ''red''" by code_simp
  have r: "requests (search (Some ''insertText'') (demo_page\<lparr>inputValue := ''red''\<rparr>)) =
     [PredictiveQuery ''predictive-search'' ''red'']" by code_simp
  show ?thesis
    using search_without_inputType[OF a(1), of "demo_page\<lparr>inputValue := ''red''\<rparr>"]
      search_without_inputType[OF a(2), of "demo_page\<lparr>inputValue := ''red''\<rparr>"] a t r
    by simp
qed

subsection \<open>Claims on the placeholder without categories and on its timer\<close>

text \<open>
  C7, as stated: with an empty category list both components render the prefix as the
  visible placeholder. The predictive search does not: it returns before it writes the
  placeholder, so the input keeps the placeholder of the page, here "Search" under the
  prefix "Search for".
\<close>

theorem no_category_counterexample:
  "getPlaceholderCategories demo_none = [] \<and>
   placeholderPrefix (connectedCallback (construct demo_none)) = ''Search for'' \<and>
   inputPlaceholder (connectedCallback (construct demo_none)) = ''Search'' \<and>
   inputPlaceholder (connectedCallback (construct demo_none)) \<noteq>
     placeholderPrefix (connectedCallback (construct demo_none))"
  by code_simp

text \<open>
  C7, amended: with an empty category list neither component ever sets an animation
  timer; the header shows its prefix, and the predictive search leaves the input with the
  placeholder that the page gave it.
\<close>

theorem no_category_static:
  assumes "h_getCategories hp = []" and "getPlaceholderCategories pg = []"
  shows "h_textContent (h_run hes (h_connectedCallback (h_construct hp))) = trim (h_prefixData hp) \<and>
         h_timers (h_run hes (h_connectedCallback (h_construct hp))) = [] \<and>
         h_timerCount (h_run hes (h_connectedCallback (h_construct hp))) = 0 \<and>
         inputPlaceholder (ps_run es (connectedCallback (construct pg))) = inputPlaceholder pg \<and>
         timers (ps_run es (connectedCallback (construct pg))) = [] \<and>
         timerCount (ps_run es (connectedCallback (construct pg))) = 0"
proof -
  have "h_idle hp (h_run hes (h_connectedCallback (h_construct hp)))"
    by (rule h_idle_run[OF assms(1) h_idle_start[OF assms(1)]])
  moreover have "idle pg (ps_run es (connectedCallback (construct pg)))"
    by (rule closed_run[OF idle_closed[OF assms(2)] idle_connected[OF assms(2)]])
  ultimately show ?thesis by (simp add: h_idle_def idle_def)
qed

theorem no_category_static_witness:
  "h_getCategories shoes_none = [] \<and> getPlaceholderCategories demo_none = [] \<and>
   h_textContent (h_run [HMouseEnter, HMouseLeave, HFocusOut]
      (h_connectedCallback (h_construct shoes_none))) = ''Search for'' \<and>
   h_timerCount (h_run [HMouseEnter, HMouseLeave, HFocusOut]
      (h_connectedCallback (h_construct shoes_none))) = 0 \<and>
   inputPlaceholder (ps_run [Focus, Blur False, ResetFire False, EmptyResolved 0 [demo_empty]]
      (connectedCallback (construct demo_none))) = ''Search'' \<and>
   timerCount (ps_run [Focus, Blur False, ResetFire False, EmptyResolved 0 [demo_empty]]
      (connectedCallback (construct demo_none))) = 0 \<and>
   h_getCategories shoes_blank = [] \<and> getPlaceholderCategories demo_blank = [] \<and>
   h_textContent (h_run [HMouseEnter, HMouseLeave, HFocusOut]
      (h_connectedCallback (h_construct shoes_blank))) = ''Search for'' \<and>
   h_timerCount (h_run [HMouseEnter, HMouseLeave, HFocusOut]
      (h_connectedCallback (h_construct shoes_blank))) = 0 \<and>
   inputPlaceholder (ps_run [Focus, Blur False, ResetFire False, EmptyResolved 0 [demo_empty]]
      (connectedCallback (construct demo_blank))) = ''Search'' \<and>
   timerCount (ps_run [Focus, Blur False, ResetFire False, EmptyResolved 0 [demo_empty]]
      (connectedCallback (construct demo_blank))) = 0"
proof -
  have a: "h_getCategories shoes_none = []" by code_simp
  have b: "getPlaceholderCategories demo_none = []" by code_simp
  have c: "trim (h_prefixData shoes_none) = ''Search for''" by code_simp
  have d: "inputPlaceholder demo_none = ''Search''" by code_simp
  have a': "h_getCategories shoes_blank = []" by code_simp
  have b': "getPlaceholderCategories demo_blank = []" by code_simp
  have c': "trim (h_prefixData shoes_blank) = ''Search for''" by code_simp
  have d': "inputPlaceholder demo_blank = ''Search''" by code_simp
  show ?thesis
    using no_category_static[OF a b, of "[HMouseEnter, HMouseLeave, HFocusOut]"
        "[Focus, Blur False, ResetFire False, EmptyResolved 0 [demo_empty]]"]
      no_category_static[OF a' b', of "[HMouseEnter, HMouseLeave, HFocusOut]"
        "[Focus, Blur False, ResetFire False, EmptyResolved 0 [demo_empty]]"]
      a b c d a' b' c' d'
    by simp
qed

lemma timerCount_stop [simp]:
  "timerCount (stopPlaceholderAnimation s) = timerCount s"
  "timerCount (pausePlaceholderAnimation s) = timerCount s"
  by (simp_all add: stopPlaceholderAnimation_def pausePlaceholderAnimation_def clearTimeout_def
      Let_def split: option.splits)

text \<open>
  C8, as stated: resume with a timer handle pending is a no-op. In the predictive search
  it is not when the placeholder may not animate: with a timer pending and the input
  focused, resume pauses, which clears the timer.
\<close>

theorem resume_pending_counterexample:
  "placeholderTimeout demo_single = Some 1 \<and> timers demo_single = [(1, 85)] \<and>
   placeholderTimeout (resumePlaceholderAnimation demo_single) = None \<and>
   timers (resumePlaceholderAnimation demo_single) = []"
  by code_simp

text \<open>
  C8, amended: resume with a timer handle pending never sets a timer. In the header it
  is a no-op. In the predictive search it is a no-op under reduced motion or when the
  placeholder may animate, and the pause otherwise. At most one animation timer is
  pending in either component at any time.
\<close>

theorem one_placeholder_timer:
  assumes "h_timeout hs \<noteq> None" and "placeholderTimeout s \<noteq> None"
  shows "h_resume hs = hs \<and>
         timerCount (resumePlaceholderAnimation s) = timerCount s \<and>
         (if reducedMotion s \<or> shouldAnimatePlaceholder s then resumePlaceholderAnimation s = s
          else resumePlaceholderAnimation s = pausePlaceholderAnimation s) \<and>
         length (h_timers (h_run hes (h_construct hp))) \<le> 1 \<and>
         length (timers (ps_run es (construct pg))) \<le> 1"
proof -
  have "h_timerOk (h_run hes (h_construct hp))"
    by (rule h_timerOk_run[OF h_timerOk_construct])
  moreover have "timerOk (ps_run es (construct pg))"
    by (rule closed_run[OF timerOk_closed timerOk_construct])
  ultimately show ?thesis
    using assms h_timerOk_length timerOk_length
    by (simp add: h_resume_def resumePlaceholderAnimation_def)
qed

theorem one_placeholder_timer_witness:
  "h_timeout (h_connectedCallback (h_construct shoes_page)) \<noteq> None \<and>
   placeholderTimeout (connectedCallback (construct demo_page)) \<noteq> None \<and>
   h_resume (h_connectedCallback (h_construct shoes_page)) =
     h_connectedCallback (h_construct shoes_page) \<and>
   resumePlaceholderAnimation (connectedCallback (construct demo_page)) =
     connectedCallback (construct demo_page) \<and>
   length (h_timers (h_run [HConnect, HMouseEnter, HMouseLeave, HTimer 2] (h_construct shoes_page))) \<le> 1 \<and>
   length (timers (ps_run [Connect, Focus, Blur False, PlaceholderTimer 2] (construct demo_page))) \<le> 1"
proof -
  have a: "h_timeout (h_connectedCallback (h_construct shoes_page)) \<noteq> None" by code_simp
  have b: "placeholderTimeout (connectedCallback (construct demo_page)) \<noteq> None" by code_simp
  have c: "shouldAnimatePlaceholder (connectedCallback (construct demo_page))" by code_simp
  show ?thesis
    using one_placeholder_timer[OF a b, of "[HConnect, HMouseEnter, HMouseLeave, HTimer 2]"
        shoes_page "[Connect, Focus, Blur False, PlaceholderTimer 2]" demo_page] a b c
    by simp
qed

subsection \<open>The scenario of the two categories\<close>

text \<open>
  C5, as stated: with the categories "shoes" and "bags" and the prefix "Search for ",
  after 5 animation steps from the initial state the placeholder reads "Search for shoe".
  It does not: each step types one character, so the fifth completes "shoes".
\<close>

theorem five_steps_counterexample:
  "h_textContent (h_steps 5 shoes_initial) \<noteq> ''Search for shoe''"
  by code_simp

text \<open>
  C5, amended: after 5 animation steps from the initial state the placeholder reads
  "Search for shoes", the whole category, and the engine turns to deleting; it reads
  "Search for shoe" after 4 steps, and again after 6, when the first character has been
  deleted.
\<close>

theorem five_steps_text:
  "h_textContent (h_steps 5 shoes_initial) = ''Search for shoes'' \<and>
   h_charIndex (h_steps 5 shoes_initial) = 5 \<and>
   h_isDeleting (h_steps 5 shoes_initial) \<and>
   h_textContent (h_steps 4 shoes_initial) = ''Search for shoe'' \<and>
   h_textContent (h_steps 6 shoes_initial) = ''Search for shoe''"
  by code_simp

end
